theory Spec2Isabelle
  imports Complex_Main
begin

section \<open>Vectors and sparse matrices\<close>

text \<open>
  The scalar type \<open>T\<close> of the templates is modelled by the ordered field of the reals:
  rounding is not modelled.  A dense column vector (\<open>gsVector\<close>, a one-column
  \<open>gsMatrix\<close>) is the list of its coefficients.

  A sparse matrix (\<open>gsSparseMatrix\<close>, an Eigen compressed matrix) is its two dimensions
  and the list of its stored entries \<open>(row, column, value)\<close> in storage order, which is
  the order in which the nested loop
  \<^verbatim>\<open>for (i=0; i<m.outerSize(); ++i) for (InnerIterator it(m,i); it; ++it)\<close>
  visits them.  The loops visit every stored entry, whatever its value: a stored entry
  may hold the value zero (\<open>setFromTriplets\<close> keeps such entries).
\<close>

type_synonym vec = "real list"

type_synonym triplet = "nat \<times> nat \<times> real"

record gsSparseMatrix =
  rows :: nat
  cols :: nat
  stored :: "triplet list"

definition t_row :: "triplet \<Rightarrow> nat" where
  "t_row e = fst e"

definition t_col :: "triplet \<Rightarrow> nat" where
  "t_col e = fst (snd e)"

definition t_val :: "triplet \<Rightarrow> real" where
  "t_val e = snd (snd e)"

definition t_pos :: "triplet \<Rightarrow> nat \<times> nat" where
  "t_pos e = (t_row e, t_col e)"

text \<open>
  The pattern of a matrix is the set of the positions that hold a stored entry; its
  nonzero pattern is the set of the positions that hold a stored value other than zero.
  The two agree for a matrix that stores no zero.
\<close>

definition pattern :: "gsSparseMatrix \<Rightarrow> (nat \<times> nat) set" where
  "pattern m = t_pos ` set (stored m)"

definition nonzero_pattern :: "gsSparseMatrix \<Rightarrow> (nat \<times> nat) set" where
  "nonzero_pattern m = t_pos ` set (filter (\<lambda>e. t_val e \<noteq> 0) (stored m))"

definition no_stored_zero :: "gsSparseMatrix \<Rightarrow> bool" where
  "no_stored_zero m \<longleftrightarrow> list_all (\<lambda>e. t_val e \<noteq> 0) (stored m)"

text \<open>
  The representation invariant of a compressed matrix: every stored entry lies inside the
  dimensions and no position is stored twice.
\<close>

definition wf_matrix :: "gsSparseMatrix \<Rightarrow> bool" where
  "wf_matrix m \<longleftrightarrow>
     list_all (\<lambda>e. t_row e < rows m \<and> t_col e < cols m) (stored m) \<and>
     distinct (map t_pos (stored m))"

text \<open>
  Failures of the code are values of the model.  A \<open>GISMO_ASSERT\<close> that does not hold
  is \<open>GismoAssert\<close>; a read or write of a vector or matrix coefficient outside its
  dimensions (an Eigen assertion) is \<open>IndexOutOfRange\<close>; a sum or product of operands
  whose dimensions do not fit (an Eigen assertion as well) is \<open>DimensionMismatch\<close>;
  a division whose denominator
  is zero has no value in the field (IEEE arithmetic yields an infinity or a NaN) and is
  \<open>DivisionByZero\<close>, tagged with the place of the division.
\<close>

datatype div_site =
  BetaRhoDiv | BetaOmegaDiv | AlphaDiv | OmegaDiv | ErrorDiv | ScalingDiv | ReserveDiv

datatype error = GismoAssert | IndexOutOfRange | DimensionMismatch | DivisionByZero div_site

definition checked_div :: "div_site \<Rightarrow> real \<Rightarrow> real \<Rightarrow> error + real" where
  "checked_div site a b = (if b = 0 then Inl (DivisionByZero site) else Inr (a / b))"

text \<open>
  \<open>setFrom\<close> (Eigen's \<open>setFromTriplets\<close>) builds a compressed matrix from a list of
  triplets: the entries end up in storage order and the values of triplets at the same
  position are added up.  The storage order is by row, then column, for the row-major
  \<open>JumpMatrix\<close>, and by column, then row, for the column-major \<open>SparseMatrix\<close>.
\<close>

definition row_major :: "nat \<times> nat \<Rightarrow> nat \<times> nat \<Rightarrow> bool" where
  "row_major p q \<longleftrightarrow> fst p < fst q \<or> (fst p = fst q \<and> snd p < snd q)"

definition col_major :: "nat \<times> nat \<Rightarrow> nat \<times> nat \<Rightarrow> bool" where
  "col_major p q \<longleftrightarrow> snd p < snd q \<or> (snd p = snd q \<and> fst p < fst q)"

fun add_entry :: "(nat \<times> nat \<Rightarrow> nat \<times> nat \<Rightarrow> bool) \<Rightarrow> triplet \<Rightarrow> triplet list \<Rightarrow> triplet list" where
  "add_entry earlier t [] = [t]"
| "add_entry earlier t (e # es) =
     (if t_pos e = t_pos t then (t_row e, t_col e, t_val e + t_val t) # es
      else if earlier (t_pos t) (t_pos e) then t # e # es
      else e # add_entry earlier t es)"

definition setFrom ::
  "(nat \<times> nat \<Rightarrow> nat \<times> nat \<Rightarrow> bool) \<Rightarrow> nat \<Rightarrow> nat \<Rightarrow> triplet list \<Rightarrow> gsSparseMatrix" where
  "setFrom earlier r c triplets =
     \<lparr>rows = r, cols = c, stored = foldl (\<lambda>es t. add_entry earlier t es) [] triplets\<rparr>"

section \<open>Linear operators\<close>

text \<open>The product of a sparse matrix with a vector, and the sum of two vectors.\<close>

definition mult_vec :: "gsSparseMatrix \<Rightarrow> vec \<Rightarrow> error + vec" where
  "mult_vec m x =
     (if length x = cols m
      then Inr (map (\<lambda>r. \<Sum>e\<leftarrow>filter (\<lambda>e. t_row e = r) (stored m). t_val e * x ! t_col e)
                  [0..<rows m])
      else Inl DimensionMismatch)"

definition vec_add :: "vec \<Rightarrow> vec \<Rightarrow> error + vec" where
  "vec_add u w = (if length u = length w then Inr (map2 (+) u w) else Inl DimensionMismatch)"

definition transposed :: "gsSparseMatrix \<Rightarrow> gsSparseMatrix" where
  "transposed m =
     \<lparr>rows = cols m, cols = rows m, stored = map (\<lambda>e. (t_col e, t_row e, t_val e)) (stored m)\<rparr>"

text \<open>
  Modelled from the spec: the operators that the preconditioner is built from
  (\<open>gsLinearOperator\<close> and its subclasses \<open>gsMatrixOp\<close>, \<open>gsSumOp\<close>, \<open>gsProductOp\<close>,
  \<open>gsAdditiveOp\<close>, and the Cholesky solver) are not among the sources.  They are
  modelled from the contract of the specification, read with the sources' use and
  documentation of them:
  \<^item> \<open>makeMatrixOp(A)\<close> applies the matrix \<open>A\<close>;
  \<^item> \<open>gsSumOp::make(A, B)\<close> applies \<open>A\<close> and \<open>B\<close> to the same vector and adds the results;
  \<^item> \<open>gsProductOp\<close> applies its operators one after the other, the first one given
    first: \<open>schurComplement\<close> builds the product of \<open>A10\<close>, the solver for \<open>A11\<close> and
    \<open>A01\<close>, in this order, on vectors of the size of \<open>A00\<close>, which only \<open>A10\<close>
    accepts (in the words of the specification, \<open>Product(A01, solver, A10)\<close>, applied
    right to left);
  \<^item> \<open>gsAdditiveOp\<close> with the transfer matrices \<open>T\<^sub>k\<close> and the operators \<open>Op\<^sub>k\<close> is
    \<open>\<Sum>\<^sub>k T\<^sub>k Op\<^sub>k T\<^sub>k\<^sup>T\<close>: the class documentation of \<open>gsScaledDirichletPrec\<close> gives
    the preconditioner, built with the jump matrices as transfers, as
    \<open>\<Sum>\<^sub>k B\<^sub>k D\<^sub>k\<^sup>-\<^sup>1 S\<^sub>k D\<^sub>k\<^sup>-\<^sup>1 B\<^sub>k\<^sup>T\<close>;
  \<^item> a solver (\<open>makeSparseCholeskySolver\<close>) is an operator of a given dimension whose
    action is a parameter.
\<close>

datatype gsLinearOperator =
    MatrixOp gsSparseMatrix
  | SumOp gsLinearOperator gsLinearOperator
  | ProductOp "gsLinearOperator list"
  | AdditiveOp "(gsSparseMatrix \<times> gsLinearOperator) list"
  | SolverOp nat "vec \<Rightarrow> vec"

fun op_rows :: "gsLinearOperator \<Rightarrow> nat" where
  "op_rows (MatrixOp m) = rows m"
| "op_rows (SumOp a b) = op_rows a"
| "op_rows (ProductOp ops) = (case rev ops of [] \<Rightarrow> 0 | l # _ \<Rightarrow> op_rows l)"
| "op_rows (AdditiveOp ts) = (case ts of [] \<Rightarrow> 0 | t # _ \<Rightarrow> rows (fst t))"
| "op_rows (SolverOp n f) = n"

fun op_cols :: "gsLinearOperator \<Rightarrow> nat" where
  "op_cols (MatrixOp m) = cols m"
| "op_cols (SumOp a b) = op_cols a"
| "op_cols (ProductOp ops) = (case ops of [] \<Rightarrow> 0 | f # _ \<Rightarrow> op_cols f)"
| "op_cols (AdditiveOp ts) = (case ts of [] \<Rightarrow> 0 | t # _ \<Rightarrow> rows (fst t))"
| "op_cols (SolverOp n f) = n"

fun apply_op :: "gsLinearOperator \<Rightarrow> vec \<Rightarrow> error + vec"
  and apply_product :: "gsLinearOperator list \<Rightarrow> vec \<Rightarrow> error + vec"
  and apply_additive :: "(gsSparseMatrix \<times> gsLinearOperator) list \<Rightarrow> vec \<Rightarrow> vec \<Rightarrow> error + vec"
where
  "apply_op (MatrixOp m) x = mult_vec m x"
| "apply_op (SumOp a b) x =
     (case apply_op a x of
        Inl e \<Rightarrow> Inl e
      | Inr u \<Rightarrow> (case apply_op b x of Inl e \<Rightarrow> Inl e | Inr w \<Rightarrow> vec_add u w))"
| "apply_op (ProductOp ops) x = apply_product ops x"
| "apply_op (AdditiveOp ts) x = apply_additive ts x (replicate (length x) 0)"
| "apply_op (SolverOp n f) x = (if length x = n then Inr (f x) else Inl DimensionMismatch)"
| "apply_product [] x = Inr x"
| "apply_product (p # ops) x =
     (case apply_op p x of Inl e \<Rightarrow> Inl e | Inr y \<Rightarrow> apply_product ops y)"
| "apply_additive [] x acc = Inr acc"
| "apply_additive (t # ts) x acc =
     (case mult_vec (transposed (fst t)) x of
        Inl e \<Rightarrow> Inl e
      | Inr u \<Rightarrow>
          (case apply_op (snd t) u of
             Inl e \<Rightarrow> Inl e
           | Inr p \<Rightarrow>
               (case mult_vec (fst t) p of
                  Inl e \<Rightarrow> Inl e
                | Inr c \<Rightarrow>
                    (case vec_add acc c of
                       Inl e \<Rightarrow> Inl e
                     | Inr acc' \<Rightarrow> apply_additive ts x acc'))))"

section \<open>The builder of the scaled Dirichlet preconditioner\<close>

text \<open>
  The members of \<open>gsScaledDirichletPrec\<close>.  The header declares the first four; the
  member functions of the \<open>.hpp\<close> file keep the scaling in \<open>m_localScaling\<close>, one
  column vector per subdomain.  A null pointer is \<open>None\<close>.
\<close>

record gsScaledDirichletPrec =
  m_jumpMatrices :: "gsSparseMatrix list"
  m_localSchurOps :: "gsLinearOperator list"
  m_localScalingOps :: "gsLinearOperator option list"
  m_localScalingTransOps :: "gsLinearOperator option list"
  m_localScaling :: "vec list"

text \<open>The object before any subdomain is registered: every member vector is empty.\<close>

definition emptyPrec :: gsScaledDirichletPrec where
  "emptyPrec =
     \<lparr>m_jumpMatrices = [], m_localSchurOps = [], m_localScalingOps = [],
      m_localScalingTransOps = [], m_localScaling = []\<rparr>"

text \<open>\<open>addSubdomain\<close>: four \<open>push_back\<close> calls, and nothing else.\<close>

definition addSubdomain ::
  "gsSparseMatrix \<Rightarrow> gsLinearOperator \<Rightarrow> gsScaledDirichletPrec \<Rightarrow> gsScaledDirichletPrec" where
  "addSubdomain jumpMatrix localSchurOp st =
     st\<lparr>m_jumpMatrices := m_jumpMatrices st @ [jumpMatrix],
        m_localSchurOps := m_localSchurOps st @ [localSchurOp],
        m_localScalingOps := m_localScalingOps st @ [None],
        m_localScalingTransOps := m_localScalingTransOps st @ [None]\<rparr>"

text \<open>The overload that takes the pair returned by \<open>restrictToSkeleton\<close>.\<close>

definition addSubdomain_pair ::
  "gsSparseMatrix \<times> gsLinearOperator \<Rightarrow> gsScaledDirichletPrec \<Rightarrow> gsScaledDirichletPrec" where
  "addSubdomain_pair data st = addSubdomain (fst data) (snd data) st"

text \<open>\<open>nLagrangeMultipliers\<close>: the assertion, then the rows of the first jump matrix.\<close>

definition nLagrangeMultipliers :: "gsScaledDirichletPrec \<Rightarrow> error + nat" where
  "nLagrangeMultipliers st =
     (case m_jumpMatrices st of [] \<Rightarrow> Inl GismoAssert | jm # _ \<Rightarrow> Inr (rows jm))"

text \<open>
  \<open>setupMultiplicityScaling\<close>.  The inner loop adds one to the coefficient of the
  column of every stored entry; a column beyond the rows of the Schur operator is a write
  outside the vector.
\<close>

fun bump_cols :: "vec \<Rightarrow> triplet list \<Rightarrow> error + vec" where
  "bump_cols sc [] = Inr sc"
| "bump_cols sc (it # its) =
     (if t_col it < length sc then bump_cols (sc[t_col it := sc ! t_col it + 1]) its
      else Inl IndexOutOfRange)"

fun scaling_loop :: "(gsSparseMatrix \<times> gsLinearOperator) list \<Rightarrow> error + vec list" where
  "scaling_loop [] = Inr []"
| "scaling_loop (k # ks) =
     (case bump_cols (replicate (op_rows (snd k)) 1) (stored (fst k)) of
        Inl e \<Rightarrow> Inl e
      | Inr sc \<Rightarrow> (case scaling_loop ks of Inl e \<Rightarrow> Inl e | Inr scs \<Rightarrow> Inr (sc # scs)))"

definition setupMultiplicityScaling :: "gsScaledDirichletPrec \<Rightarrow> error + gsScaledDirichletPrec" where
  "setupMultiplicityScaling st =
     (if length (m_jumpMatrices st) \<noteq> length (m_localSchurOps st) then Inl GismoAssert
      else
        (case scaling_loop (zip (m_jumpMatrices st) (m_localSchurOps st)) of
           Inl e \<Rightarrow> Inl e
         | Inr scs \<Rightarrow> Inr (st\<lparr>m_localScaling := scs\<rparr>)))"

text \<open>
  \<open>preconditioner\<close>.  The first loop builds the diagonal matrices with the coefficients
  \<open>1 / m_localScaling[k](i,0)\<close> for \<open>i\<close> below the rows of the Schur operator; the second
  loop adds, for every subdomain, the jump matrix with the product of the scaling, the
  Schur operator and the scaling again to the additive operator.
\<close>

fun diag_entries :: "vec \<Rightarrow> nat list \<Rightarrow> error + triplet list" where
  "diag_entries sc [] = Inr []"
| "diag_entries sc (i # is) =
     (if i < length sc then
        (case checked_div ScalingDiv 1 (sc ! i) of
           Inl e \<Rightarrow> Inl e
         | Inr d \<Rightarrow>
             (case diag_entries sc is of Inl e \<Rightarrow> Inl e | Inr es \<Rightarrow> Inr ((i, i, d) # es)))
      else Inl IndexOutOfRange)"

fun scalingOps_loop :: "(gsLinearOperator \<times> vec) list \<Rightarrow> error + gsLinearOperator list" where
  "scalingOps_loop [] = Inr []"
| "scalingOps_loop (k # ks) =
     (case diag_entries (snd k) [0..<op_rows (fst k)] of
        Inl e \<Rightarrow> Inl e
      | Inr es \<Rightarrow>
          (case scalingOps_loop ks of
             Inl e \<Rightarrow> Inl e
           | Inr ds \<Rightarrow>
               Inr (MatrixOp \<lparr>rows = op_rows (fst k), cols = op_rows (fst k), stored = es\<rparr> # ds)))"

definition local_product :: "gsLinearOperator \<Rightarrow> gsLinearOperator \<Rightarrow> gsLinearOperator" where
  "local_product scalingOp schurOp = ProductOp [scalingOp, schurOp, scalingOp]"

definition preconditioner :: "gsScaledDirichletPrec \<Rightarrow> error + gsLinearOperator" where
  "preconditioner st =
     (if length (m_jumpMatrices st) \<noteq> length (m_localScaling st) then Inl GismoAssert
      else if length (m_jumpMatrices st) \<noteq> length (m_localSchurOps st) then Inl GismoAssert
      else
        (case scalingOps_loop (zip (m_localSchurOps st) (m_localScaling st)) of
           Inl e \<Rightarrow> Inl e
         | Inr scalingOps \<Rightarrow>
             Inr (AdditiveOp
                    (map (\<lambda>i. (m_jumpMatrices st ! i,
                               local_product (scalingOps ! i) (m_localSchurOps st ! i)))
                       [0..<length (m_jumpMatrices st)]))))"

section \<open>The BiCGStab solver\<close>

text \<open>
  Vector arithmetic of the solver.  Sums, differences and inner products of vectors of
  different sizes are Eigen assertions.
\<close>

definition smult :: "real \<Rightarrow> vec \<Rightarrow> vec" where
  "smult a v = map (\<lambda>c. a * c) v"

definition vec_sub :: "vec \<Rightarrow> vec \<Rightarrow> error + vec" where
  "vec_sub u w = (if length u = length w then Inr (map2 (-) u w) else Inl DimensionMismatch)"

definition dot :: "vec \<Rightarrow> vec \<Rightarrow> real" where
  "dot u w = (\<Sum>c\<leftarrow>zip u w. fst c * snd c)"

definition checked_dot :: "vec \<Rightarrow> vec \<Rightarrow> error + real" where
  "checked_dot u w = (if length u = length w then Inr (dot u w) else Inl DimensionMismatch)"

definition norm2 :: "vec \<Rightarrow> real" where
  "norm2 v = sqrt (dot v v)"

definition bind_err :: "error + 'a \<Rightarrow> ('a \<Rightarrow> error + 'b) \<Rightarrow> error + 'b" where
  "bind_err m f = (case m of Inl e \<Rightarrow> Inl e | Inr a \<Rightarrow> f a)"

text \<open>
  The members of \<open>gsBiCgStab\<close> that the two member functions read and write; the
  matrix, the preconditioner, the tolerance, the norm of the right-hand side and the
  error are members of the base class \<open>gsIterativeSolver\<close>.
\<close>

record gsBiCgStab =
  m_mat :: gsLinearOperator
  m_precond :: gsLinearOperator
  m_tol :: real
  m_rhs_norm :: real
  m_error :: real
  m_res :: vec
  m_r0 :: vec
  m_tmp :: vec
  m_p :: vec
  m_v :: vec
  m_y :: vec
  m_s :: vec
  m_z :: vec
  m_t :: vec
  m_alpha :: real
  m_rho :: real
  m_w :: real

text \<open>
  Modelled from the spec: \<open>gsIterativeSolver::initIteration\<close>, the base-class part of
  the initialisation, is not among the sources.  The specification gives the initial
  guess the zero vector as its default, and the relative error the norm of the
  right-hand side as its denominator; it names no case in which the base class ends the
  iteration at once.
\<close>

definition Base_initIteration :: "gsBiCgStab \<Rightarrow> vec \<Rightarrow> vec \<Rightarrow> bool \<times> vec \<times> gsBiCgStab" where
  "Base_initIteration st rhs x =
     (False, (if x = [] then replicate (length rhs) 0 else x), st\<lparr>m_rhs_norm := norm2 rhs\<rparr>)"

definition initIteration :: "gsBiCgStab \<Rightarrow> vec \<Rightarrow> vec \<Rightarrow> error + (bool \<times> vec \<times> gsBiCgStab)" where
  "initIteration st0 rhs x0 =
     (case Base_initIteration st0 rhs x0 of (finished, x, st) \<Rightarrow>
        if finished then Inr (True, x, st)
        else
          bind_err (apply_op (m_mat st) x) (\<lambda>tmp.
          bind_err (vec_sub rhs tmp) (\<lambda>res.
          bind_err (checked_div ErrorDiv (norm2 res) (m_rhs_norm st)) (\<lambda>err.
            Inr (err < m_tol st, x,
                 st\<lparr>m_tmp := tmp, m_res := res, m_r0 := res,
                    m_p := replicate (op_cols (m_mat st)) 0,
                    m_v := replicate (op_cols (m_mat st)) 0,
                    m_alpha := 1, m_rho := 1, m_w := 1, m_error := err\<rparr>)))))"

text \<open>
  \<open>step\<close>, statement by statement.  The iterate \<open>x\<close> is passed by reference, so it is
  a part of the result, after the flag that the iteration has converged.
\<close>

definition step :: "gsBiCgStab \<Rightarrow> vec \<Rightarrow> error + (bool \<times> vec \<times> gsBiCgStab)" where
  "step st x =
     bind_err (checked_dot (m_r0 st) (m_res st)) (\<lambda>rho1.
     let rho_old = m_rho st;
         restart = \<bar>rho1\<bar> < 1 / 10 ^ 32 * dot (m_r0 st) (m_r0 st);
         r0 = (if restart then m_res st else m_r0 st);
         rho = (if restart then dot r0 r0 else rho1)
     in
     bind_err (checked_div BetaRhoDiv rho rho_old) (\<lambda>q1.
     bind_err (checked_div BetaOmegaDiv (m_alpha st) (m_w st)) (\<lambda>q2.
     let beta = q1 * q2 in
     bind_err (vec_sub (m_p st) (smult (m_w st) (m_v st))) (\<lambda>d.
     bind_err (vec_add (m_res st) (smult beta d)) (\<lambda>p.
     bind_err (apply_op (m_precond st) p) (\<lambda>y.
     bind_err (apply_op (m_mat st) y) (\<lambda>v.
     bind_err (checked_dot r0 v) (\<lambda>r0v.
     bind_err (checked_div AlphaDiv rho r0v) (\<lambda>alpha.
     bind_err (vec_sub (m_res st) (smult alpha v)) (\<lambda>s.
     bind_err (apply_op (m_precond st) s) (\<lambda>z.
     bind_err (apply_op (m_mat st) z) (\<lambda>t.
     bind_err (if dot t t > 0
               then bind_err (checked_dot t s) (\<lambda>ts. checked_div OmegaDiv ts (dot t t))
               else Inr 0) (\<lambda>w.
     bind_err (vec_add (smult alpha y) (smult w z)) (\<lambda>dx.
     bind_err (vec_add x dx) (\<lambda>x'.
     bind_err (vec_add (smult alpha v) (smult w t)) (\<lambda>dr.
     bind_err (vec_sub (m_res st) dr) (\<lambda>res.
     bind_err (checked_div ErrorDiv (norm2 res) (m_rhs_norm st)) (\<lambda>err.
       Inr (err < m_tol st, x',
            st\<lparr>m_rho := rho, m_r0 := r0, m_p := p, m_y := y, m_v := v, m_alpha := alpha,
               m_s := s, m_z := z, m_t := t, m_w := w, m_res := res,
               m_error := err\<rparr>)))))))))))))))))))"

text \<open>
  The restart of \<open>step\<close> in closed form: the test
  \<^verbatim>\<open>abs(m_rho) < 1e-32 * m_r0.col(0).dot(m_r0.col(0))\<close> on the inner product of the
  shadow residual and the residual, and the shadow residual and the value of \<open>m_rho\<close>
  after the \<open>if\<close> statement.
\<close>

definition restart_of :: "gsBiCgStab \<Rightarrow> bool" where
  "restart_of st \<longleftrightarrow> \<bar>dot (m_r0 st) (m_res st)\<bar> < 1 / 10 ^ 32 * dot (m_r0 st) (m_r0 st)"

definition r0_of :: "gsBiCgStab \<Rightarrow> vec" where
  "r0_of st = (if restart_of st then m_res st else m_r0 st)"

definition rho_of :: "gsBiCgStab \<Rightarrow> real" where
  "rho_of st = (if restart_of st then dot (m_res st) (m_res st) else dot (m_r0 st) (m_res st))"

text \<open>The guarded computation of \<open>m_w\<close> from \<open>m_t\<close> and \<open>m_s\<close>.\<close>

definition omega_of :: "vec \<Rightarrow> vec \<Rightarrow> error + real" where
  "omega_of t s =
     (if dot t t > 0 then bind_err (checked_dot t s) (\<lambda>ts. checked_div OmegaDiv ts (dot t t))
      else Inr 0)"

text \<open>
  A solver object before \<open>initIteration\<close>, and the loop of the solver: the next step
  is taken from the result of the last one.
\<close>

definition new_solver :: "gsLinearOperator \<Rightarrow> gsLinearOperator \<Rightarrow> real \<Rightarrow> gsBiCgStab" where
  "new_solver A P tol =
     \<lparr>m_mat = A, m_precond = P, m_tol = tol, m_rhs_norm = 0, m_error = 0,
      m_res = [], m_r0 = [], m_tmp = [], m_p = [], m_v = [], m_y = [], m_s = [], m_z = [],
      m_t = [], m_alpha = 0, m_rho = 0, m_w = 0\<rparr>"

definition next_step :: "error + (bool \<times> vec \<times> gsBiCgStab) \<Rightarrow> error + (bool \<times> vec \<times> gsBiCgStab)" where
  "next_step r = bind_err r (\<lambda>(c, x, st). step st x)"

text \<open>Matrices and operators of the example runs of the solver.\<close>

definition identityOp :: "nat \<Rightarrow> gsLinearOperator" where
  "identityOp n = MatrixOp \<lparr>rows = n, cols = n, stored = map (\<lambda>i. (i, i, 1)) [0..<n]\<rparr>"

definition exchange2 :: gsLinearOperator where
  "exchange2 = MatrixOp \<lparr>rows = 2, cols = 2, stored = [(1, 0, 1), (0, 1, 1)]\<rparr>"

definition diag12 :: gsLinearOperator where
  "diag12 = MatrixOp \<lparr>rows = 2, cols = 2, stored = [(0, 0, 1), (1, 1, 2)]\<rparr>"

definition probe_state :: gsBiCgStab where
  "probe_state =
     \<lparr>m_mat = diag12, m_precond = identityOp 2, m_tol = 1 / 10 ^ 10, m_rhs_norm = 1,
      m_error = 1, m_res = [1, 1], m_r0 = [1, 1], m_tmp = [0, 0], m_p = [0, 0], m_v = [0, 0],
      m_y = [], m_s = [], m_z = [], m_t = [], m_alpha = 1, m_rho = 1, m_w = 1\<rparr>"

definition mat3 :: gsLinearOperator where
  "mat3 =
     MatrixOp \<lparr>rows = 3, cols = 3,
               stored = [(0, 0, - 1), (1, 0, - 1), (0, 1, - 1), (1, 1, - 1), (2, 1, 1),
                         (0, 2, - 1), (2, 2, - 1)]\<rparr>"

section \<open>Skeleton dofs\<close>

text \<open>
  \<open>gsSortedVector::push_sorted_unique\<close>: the position of the first element not below
  \<open>t\<close> is looked up (\<open>std::lower_bound\<close>), and \<open>t\<close> is inserted there unless it is
  already the element at that position.
\<close>

fun push_sorted_unique :: "nat \<Rightarrow> nat list \<Rightarrow> nat list" where
  "push_sorted_unique t [] = [t]"
| "push_sorted_unique t (x # xs) =
     (if x < t then x # push_sorted_unique t xs
      else if x = t then x # xs
      else t # x # xs)"

definition getSkeletonDofs :: "gsSparseMatrix \<Rightarrow> nat list" where
  "getSkeletonDofs jm =
     foldl (\<lambda>result it. push_sorted_unique (t_col it) result) [] (stored jm)"

lemma set_push_sorted_unique:
  "set (push_sorted_unique t xs) = insert t (set xs)"
  by (induction xs) auto

lemma sorted_push_sorted_unique:
  "sorted_wrt (<) xs \<Longrightarrow> sorted_wrt (<) (push_sorted_unique t xs)"
proof (induction xs)
  case Nil
  show ?case by simp
next
  case (Cons x xs)
  show ?case
  proof (cases "x < t")
    case True
    with Cons show ?thesis
      by (auto simp: set_push_sorted_unique)
  next
    case False
    with Cons.prems show ?thesis
      by (cases "x = t") (auto simp: less_le)
  qed
qed

lemma foldl_push_set:
  "set (foldl (\<lambda>result it. push_sorted_unique (t_col it) result) acc es) =
     set acc \<union> t_col ` set es"
  by (induction es arbitrary: acc) (auto simp: set_push_sorted_unique)

lemma foldl_push_sorted:
  "sorted_wrt (<) acc \<Longrightarrow>
     sorted_wrt (<) (foldl (\<lambda>result it. push_sorted_unique (t_col it) result) acc es)"
  by (induction es arbitrary: acc) (auto simp: sorted_push_sorted_unique)

lemma nonzero_pattern_eq: "no_stored_zero m \<Longrightarrow> nonzero_pattern m = pattern m"
proof -
  assume "no_stored_zero m"
  then have "filter (\<lambda>e. t_val e \<noteq> 0) (stored m) = stored m"
    by (simp add: no_stored_zero_def list_all_iff)
  then show ?thesis by (simp add: nonzero_pattern_def pattern_def)
qed

text \<open>
  Claim C7, as amended.  For every sparse jump matrix, \<open>getSkeletonDofs\<close> (declared as
  \<open>skeletonDofs\<close> in the header) returns exactly the columns that hold a stored entry,
  whatever its value, in strictly increasing order, hence without duplicates; a column
  that holds no stored entry is not in the result.  For a matrix that stores no zero,
  these are exactly the columns that hold a nonzero entry.
\<close>

theorem getSkeletonDofs_exact:
  "sorted_wrt (<) (getSkeletonDofs jm) \<and>
   distinct (getSkeletonDofs jm) \<and>
   set (getSkeletonDofs jm) = {c. \<exists>r. (r, c) \<in> pattern jm} \<and>
   (c \<notin> snd ` pattern jm \<longrightarrow> c \<notin> set (getSkeletonDofs jm)) \<and>
   (no_stored_zero jm \<longrightarrow>
      set (getSkeletonDofs jm) = {c. \<exists>r. (r, c) \<in> nonzero_pattern jm})"
proof -
  have s: "sorted_wrt (<) (getSkeletonDofs jm)"
    unfolding getSkeletonDofs_def by (rule foldl_push_sorted) simp
  have d: "distinct (getSkeletonDofs jm)"
    using s strict_sorted_iff by blast
  have e: "set (getSkeletonDofs jm) = t_col ` set (stored jm)"
    unfolding getSkeletonDofs_def by (simp add: foldl_push_set)
  have p: "t_col ` set (stored jm) = {c. \<exists>r. (r, c) \<in> pattern jm}"
    by (force simp: pattern_def t_pos_def image_iff)
  have q: "snd ` pattern jm = t_col ` set (stored jm)"
    by (force simp: pattern_def t_pos_def image_iff)
  have n: "no_stored_zero jm \<longrightarrow>
      set (getSkeletonDofs jm) = {c. \<exists>r. (r, c) \<in> nonzero_pattern jm}"
    using e p by (simp add: nonzero_pattern_eq)
  show ?thesis using s d e p q n by simp
qed

theorem getSkeletonDofs_exact_witness:
  "getSkeletonDofs \<lparr>rows = 2, cols = 4, stored = [(0, 3, 1), (0, 1, -1), (1, 3, 1)]\<rparr> = [1, 3] \<and>
   (2::nat) \<notin> set (getSkeletonDofs \<lparr>rows = 2, cols = 4, stored = [(0, 3, 1), (0, 1, -1), (1, 3, 1)]\<rparr>) \<and>
   no_stored_zero \<lparr>rows = 2, cols = 4, stored = [(0, 3, 1), (0, 1, -1), (1, 3, 1)]\<rparr> \<and>
   {c. \<exists>r. (r, c) \<in> nonzero_pattern
        \<lparr>rows = 2, cols = 4, stored = [(0, 3, 1), (0, 1, -1), (1, 3, 1)]\<rparr>} = {1, 3}"
proof -
  let ?J = "\<lparr>rows = 2, cols = 4, stored = [(0, 3, 1), (0, 1, -1), (1, 3, 1)]\<rparr>"
  have v: "getSkeletonDofs ?J = [1, 3]"
    by (simp add: getSkeletonDofs_def t_col_def)
  have z: "no_stored_zero ?J"
    by (simp add: no_stored_zero_def t_val_def)
  have o: "2 \<notin> snd ` pattern ?J"
    by (simp add: pattern_def t_pos_def t_row_def t_col_def)
  from getSkeletonDofs_exact[of ?J 2] o
  have a: "2 \<notin> set (getSkeletonDofs ?J)" by blast
  from getSkeletonDofs_exact[of ?J 2] z
  have b: "set (getSkeletonDofs ?J) = {c. \<exists>r. (r, c) \<in> nonzero_pattern ?J}" by blast
  have "{c. \<exists>r. (r, c) \<in> nonzero_pattern ?J} = {1, 3}"
    unfolding b[symmetric] v by auto
  with v a z show ?thesis by blast
qed

text \<open>
  The claim C7 as stated, with the columns that contain a nonzero entry, fails for a
  matrix that stores a zero: column 2 of the matrix below holds a stored zero and
  nothing else, and it is in the result.
\<close>

theorem getSkeletonDofs_stored_zero_counterexample:
  "wf_matrix \<lparr>rows = 2, cols = 3, stored = [(0, 0, 1), (1, 2, 0)]\<rparr> \<and>
   getSkeletonDofs \<lparr>rows = 2, cols = 3, stored = [(0, 0, 1), (1, 2, 0)]\<rparr> = [0, 2] \<and>
   nonzero_pattern \<lparr>rows = 2, cols = 3, stored = [(0, 0, 1), (1, 2, 0)]\<rparr> = {(0, 0)} \<and>
   set (getSkeletonDofs \<lparr>rows = 2, cols = 3, stored = [(0, 0, 1), (1, 2, 0)]\<rparr>) \<noteq>
     snd ` nonzero_pattern \<lparr>rows = 2, cols = 3, stored = [(0, 0, 1), (1, 2, 0)]\<rparr>"
  by (simp add: wf_matrix_def getSkeletonDofs_def nonzero_pattern_def t_pos_def t_row_def
      t_col_def t_val_def)

section \<open>Restriction of a jump matrix to a list of dofs\<close>

text \<open>
  The first loop of \<open>restrictJumpMatrix\<close>:
  \<^verbatim>\<open>reverse.setZero(jm.cols()); for (i=0; i<sz; ++i) reverse[dofs[i]] = i+1;\<close>
  A dof outside the columns of the matrix is a write outside the vector.
\<close>

fun set_reverse :: "int list \<Rightarrow> nat list \<Rightarrow> nat \<Rightarrow> error + int list" where
  "set_reverse reverse [] i = Inr reverse"
| "set_reverse reverse (d # dofs) i =
     (if d < length reverse then set_reverse (reverse[d := int i + 1]) dofs (Suc i)
      else Inl IndexOutOfRange)"

text \<open>
  The second loop: every stored entry whose column has a positive \<open>reverse\<close> value is
  added to the triplets, at the column \<open>reverse[col] - 1\<close>.
\<close>

fun restrict_entries :: "int list \<Rightarrow> triplet list \<Rightarrow> error + triplet list" where
  "restrict_entries reverse [] = Inr []"
| "restrict_entries reverse (it # its) =
     (if t_col it < length reverse then
        (case restrict_entries reverse its of
           Inl e \<Rightarrow> Inl e
         | Inr triplets \<Rightarrow>
             if reverse ! t_col it > 0
             then Inr ((t_row it, nat (reverse ! t_col it - 1), t_val it) # triplets)
             else Inr triplets)
      else Inl IndexOutOfRange)"

definition restrictJumpMatrix :: "gsSparseMatrix \<Rightarrow> nat list \<Rightarrow> error + gsSparseMatrix" where
  "restrictJumpMatrix jm dofs =
     (case set_reverse (replicate (cols jm) 0) dofs 0 of
        Inl e \<Rightarrow> Inl e
      | Inr reverse \<Rightarrow>
          (case restrict_entries reverse (stored jm) of
             Inl e \<Rightarrow> Inl e
           | Inr triplets \<Rightarrow> Inr (setFrom row_major (rows jm) (length dofs) triplets)))"

text \<open>
  Zero-padding, as the specification words it: the columns of the restricted matrix are
  put back at the dofs they came from, inside a matrix of the original number of columns;
  the dropped columns hold no entry.
\<close>

definition zeroPad :: "gsSparseMatrix \<Rightarrow> nat list \<Rightarrow> nat \<Rightarrow> gsSparseMatrix" where
  "zeroPad m dofs n =
     \<lparr>rows = rows m, cols = n,
      stored = map (\<lambda>e. (t_row e, dofs ! t_col e, t_val e)) (stored m)\<rparr>"

lemma set_reverse_ok:
  "distinct dofs \<Longrightarrow> \<forall>d\<in>set dofs. d < length rev0 \<Longrightarrow>
   \<exists>rev. set_reverse rev0 dofs i = Inr rev \<and> length rev = length rev0 \<and>
      (\<forall>j<length dofs. rev ! (dofs ! j) = int (i + j) + 1) \<and>
      (\<forall>c<length rev0. c \<notin> set dofs \<longrightarrow> rev ! c = rev0 ! c)"
proof (induction dofs arbitrary: rev0 i)
  case Nil
  show ?case by simp
next
  case (Cons d dofs)
  from Cons.prems have d: "d < length rev0" and nd: "d \<notin> set dofs" and dist: "distinct dofs"
    and rng: "\<forall>e\<in>set dofs. e < length (rev0[d := int i + 1])"
    by auto
  from Cons.IH[OF dist rng, of "Suc i"] obtain rev where
    r: "set_reverse (rev0[d := int i + 1]) dofs (Suc i) = Inr rev"
    and l: "length rev = length rev0"
    and a: "\<forall>j<length dofs. rev ! (dofs ! j) = int (Suc i + j) + 1"
    and b: "\<forall>c<length rev0. c \<notin> set dofs \<longrightarrow> rev ! c = rev0[d := int i + 1] ! c"
    by auto
  have 1: "set_reverse rev0 (d # dofs) i = Inr rev" using d r by simp
  have 2: "\<forall>j<length (d # dofs). rev ! ((d # dofs) ! j) = int (i + j) + 1"
  proof (intro allI impI)
    fix j assume j: "j < length (d # dofs)"
    show "rev ! ((d # dofs) ! j) = int (i + j) + 1"
    proof (cases j)
      case 0
      then show ?thesis using b d nd by simp
    next
      case (Suc k)
      then show ?thesis using a j by simp
    qed
  qed
  have 3: "\<forall>c<length rev0. c \<notin> set (d # dofs) \<longrightarrow> rev ! c = rev0 ! c"
    using b by auto
  show ?case using 1 2 3 l by blast
qed

text \<open>The triplet that the second loop adds for a kept entry.\<close>

definition reindex :: "int list \<Rightarrow> triplet \<Rightarrow> triplet" where
  "reindex reverse it = (t_row it, nat (reverse ! t_col it - 1), t_val it)"

lemma restrict_entries_ok:
  "\<forall>e\<in>set es. t_col e < length reverse \<Longrightarrow>
   restrict_entries reverse es =
     Inr (map (reindex reverse) (filter (\<lambda>it. reverse ! t_col it > 0) es))"
  by (induction es) (auto simp: reindex_def)

lemma set_add_entry_fresh:
  "t_pos t \<notin> t_pos ` set es \<Longrightarrow> set (add_entry earlier t es) = insert t (set es)"
  by (induction es) auto

lemma distinct_add_entry_fresh:
  "t_pos t \<notin> t_pos ` set es \<Longrightarrow> distinct (map t_pos es) \<Longrightarrow>
   distinct (map t_pos (add_entry earlier t es))"
  by (induction es) (auto simp: set_add_entry_fresh)

lemma foldl_add_entry_distinct:
  "distinct (map t_pos (acc @ ts)) \<Longrightarrow>
   set (foldl (\<lambda>es t. add_entry earlier t es) acc ts) = set acc \<union> set ts \<and>
   distinct (map t_pos (foldl (\<lambda>es t. add_entry earlier t es) acc ts))"
proof (induction ts arbitrary: acc)
  case Nil
  then show ?case by simp
next
  case (Cons t ts)
  from Cons.prems have fresh: "t_pos t \<notin> t_pos ` set acc" and da: "distinct (map t_pos acc)"
    by auto
  have s: "set (add_entry earlier t acc) = insert t (set acc)"
    using fresh by (rule set_add_entry_fresh)
  have d: "distinct (map t_pos (add_entry earlier t acc))"
    using fresh da by (rule distinct_add_entry_fresh)
  have "distinct (map t_pos (add_entry earlier t acc @ ts))"
    using Cons.prems d s by auto
  from Cons.IH[OF this] show ?case using s by auto
qed

lemma setFrom_distinct:
  "distinct (map t_pos ts) \<Longrightarrow>
   set (stored (setFrom earlier r c ts)) = set ts \<and>
   distinct (map t_pos (stored (setFrom earlier r c ts)))"
  using foldl_add_entry_distinct[of "[]" ts earlier] by (simp add: setFrom_def)


lemma reverse_of_dofs:
  assumes "distinct dofs" "\<forall>d\<in>set dofs. d < n"
  shows "\<exists>rev. set_reverse (replicate n 0) dofs 0 = Inr rev \<and> length rev = n \<and>
      (\<forall>j<length dofs. rev ! (dofs ! j) = int j + 1) \<and>
      (\<forall>c<n. c \<notin> set dofs \<longrightarrow> rev ! c = 0)"
  using set_reverse_ok[of dofs "replicate n 0" 0] assms by auto

text \<open>
  Claim C8, as amended.  For a well-formed jump matrix and a duplicate-free list of valid
  column indices, \<open>restrictJumpMatrix\<close> succeeds; the result has the rows of the
  matrix and one column per dof, and holds the entry \<open>(r, j, v)\<close> exactly when the
  matrix holds \<open>(r, dofs[j], v)\<close>: the listed columns, re-indexed in the order given,
  and nothing else.  Zero-padding the result gives back the part of the nonzero pattern
  that lies in the listed columns; it is the whole pattern exactly when every column
  that holds an entry is listed.
\<close>

theorem restrictJumpMatrix_columns:
  assumes wf: "wf_matrix jm" and dist: "distinct dofs" and rng: "\<forall>d\<in>set dofs. d < cols jm"
  shows "\<exists>R. restrictJumpMatrix jm dofs = Inr R \<and> rows R = rows jm \<and> cols R = length dofs \<and>
     wf_matrix R \<and>
     set (stored R) = {(r, j, v). j < length dofs \<and> (r, dofs ! j, v) \<in> set (stored jm)} \<and>
     pattern (zeroPad R dofs (cols jm)) = {(r, c). (r, c) \<in> pattern jm \<and> c \<in> set dofs} \<and>
     (pattern (zeroPad R dofs (cols jm)) = pattern jm \<longleftrightarrow> snd ` pattern jm \<subseteq> set dofs)"
proof -
  from reverse_of_dofs[OF dist rng] obtain rev where
    rv: "set_reverse (replicate (cols jm) 0) dofs 0 = Inr rev"
    and len: "length rev = cols jm"
    and hit: "\<forall>j<length dofs. rev ! (dofs ! j) = int j + 1"
    and miss: "\<forall>c<cols jm. c \<notin> set dofs \<longrightarrow> rev ! c = 0"
    by blast
  let ?es = "stored jm"
  let ?keep = "filter (\<lambda>it. rev ! t_col it > 0) ?es"
  let ?ts = "map (reindex rev) ?keep"
  let ?R = "setFrom row_major (rows jm) (length dofs) ?ts"
  have inside: "\<forall>e\<in>set ?es. t_row e < rows jm \<and> t_col e < cols jm"
    using wf by (simp add: wf_matrix_def list_all_iff)
  have dpos: "distinct (map t_pos ?es)"
    using wf by (simp add: wf_matrix_def)
  have re: "restrict_entries rev ?es = Inr ?ts"
    using restrict_entries_ok[of ?es rev] inside len by simp
  have res: "restrictJumpMatrix jm dofs = Inr ?R"
    by (simp add: restrictJumpMatrix_def rv re)
  have pos_iff: "rev ! c > 0 \<longleftrightarrow> c \<in> set dofs" if "c < cols jm" for c
  proof (cases "c \<in> set dofs")
    case True
    then obtain j where "j < length dofs" "dofs ! j = c" by (auto simp: in_set_conv_nth)
    with hit True show ?thesis by auto
  next
    case False
    with miss that show ?thesis by simp
  qed
  have keep_iff: "e \<in> set ?keep \<longleftrightarrow> e \<in> set ?es \<and> t_col e \<in> set dofs" for e
    using pos_iff inside by auto
  have new_col: "reindex rev e = (t_row e, j, t_val e)"
    if "j < length dofs" "t_col e = dofs ! j" for e j
    using that hit by (simp add: reindex_def)
  have inj: "inj_on (\<lambda>e. t_pos (reindex rev e)) (set ?keep)"
  proof (rule inj_onI)
    fix a b
    assume a: "a \<in> set ?keep" and b: "b \<in> set ?keep"
      and eq: "t_pos (reindex rev a) = t_pos (reindex rev b)"
    from a keep_iff obtain i where i: "i < length dofs" "t_col a = dofs ! i"
      by (auto simp: in_set_conv_nth)
    from b keep_iff obtain j where j: "j < length dofs" "t_col b = dofs ! j"
      by (auto simp: in_set_conv_nth)
    from eq have "t_row a = t_row b" "i = j"
      using new_col[OF i] new_col[OF j] by (simp_all add: t_pos_def t_row_def t_col_def)
    then have "t_pos a = t_pos b" using i j by (simp add: t_pos_def)
    moreover have "a \<in> set ?es" "b \<in> set ?es" using a b by auto
    ultimately show "a = b" using dpos by (meson distinct_map inj_onD)
  qed
  have dts: "distinct (map t_pos ?ts)"
    using dpos inj by (simp add: distinct_map comp_def distinct_map_filter)
  from setFrom_distinct[OF dts, of row_major "rows jm" "length dofs"]
  have sR: "set (stored ?R) = set ?ts" and dR: "distinct (map t_pos (stored ?R))"
    by simp_all
  have set_ts: "set ?ts = {(r, j, v). j < length dofs \<and> (r, dofs ! j, v) \<in> set ?es}"
  proof (intro set_eqI iffI)
    fix x assume "x \<in> set ?ts"
    then obtain e where e: "e \<in> set ?keep" "x = reindex rev e" by auto
    from e keep_iff obtain j where j: "j < length dofs" "t_col e = dofs ! j"
      by (auto simp: in_set_conv_nth)
    have "e = (t_row e, dofs ! j, t_val e)"
      using j by (cases e) (simp add: t_row_def t_col_def t_val_def)
    moreover have "e \<in> set ?es" using e by simp
    ultimately have "(t_row e, dofs ! j, t_val e) \<in> set ?es" by simp
    then show "x \<in> {(r, j, v). j < length dofs \<and> (r, dofs ! j, v) \<in> set ?es}"
      using e new_col[OF j] j by simp
  next
    fix x assume "x \<in> {(r, j, v). j < length dofs \<and> (r, dofs ! j, v) \<in> set ?es}"
    then obtain r j v where x: "x = (r, j, v)" "j < length dofs" "(r, dofs ! j, v) \<in> set ?es"
      by auto
    let ?e = "(r, dofs ! j, v)"
    have "?e \<in> set ?keep" using x keep_iff[of ?e] by (simp add: t_col_def)
    moreover have "reindex rev ?e = x"
      using new_col[of j ?e] x by (simp add: t_col_def t_row_def t_val_def)
    ultimately show "x \<in> set ?ts" by force
  qed
  have wfR: "wf_matrix ?R"
    unfolding wf_matrix_def list_all_iff
  proof (intro conjI ballI)
    fix e assume "e \<in> set (stored ?R)"
    then have "e \<in> {(r, j, v). j < length dofs \<and> (r, dofs ! j, v) \<in> set ?es}"
      using sR set_ts by simp
    then obtain r j v where x: "e = (r, j, v)" "j < length dofs" "(r, dofs ! j, v) \<in> set ?es"
      by auto
    then have "r < rows jm" using inside by (force simp: t_row_def)
    then show "t_row e < rows ?R" using x by (simp add: t_row_def setFrom_def)
    show "t_col e < cols ?R" using x by (simp add: t_col_def setFrom_def)
  next
    show "distinct (map t_pos (stored ?R))" by (rule dR)
  qed
  have pat: "pattern (zeroPad ?R dofs (cols jm)) = {(r, c). (r, c) \<in> pattern jm \<and> c \<in> set dofs}"
  proof (intro set_eqI iffI)
    fix p assume "p \<in> pattern (zeroPad ?R dofs (cols jm))"
    then obtain e where e: "e \<in> set (stored ?R)" "p = (t_row e, dofs ! t_col e)"
      by (auto simp: pattern_def zeroPad_def t_pos_def t_row_def t_col_def)
    then have "e \<in> {(r, j, v). j < length dofs \<and> (r, dofs ! j, v) \<in> set ?es}"
      using sR set_ts by simp
    then obtain r j v where x: "e = (r, j, v)" "j < length dofs" "(r, dofs ! j, v) \<in> set ?es"
      by auto
    have "(r, dofs ! j) \<in> pattern jm"
      using x(3) by (force simp: pattern_def t_pos_def t_row_def t_col_def)
    then show "p \<in> {(r, c). (r, c) \<in> pattern jm \<and> c \<in> set dofs}"
      using e x by (simp add: t_row_def t_col_def)
  next
    fix p assume "p \<in> {(r, c). (r, c) \<in> pattern jm \<and> c \<in> set dofs}"
    then obtain r c where p: "p = (r, c)" "(r, c) \<in> pattern jm" "c \<in> set dofs" by auto
    then obtain v where v: "(r, c, v) \<in> set ?es"
      by (auto simp: pattern_def t_pos_def t_row_def t_col_def)
    from p obtain j where j: "j < length dofs" "dofs ! j = c" by (auto simp: in_set_conv_nth)
    have "(r, j, v) \<in> set (stored ?R)" using sR set_ts v j by simp
    then have "t_pos (r, dofs ! j, v) \<in> pattern (zeroPad ?R dofs (cols jm))"
      by (force simp: pattern_def zeroPad_def t_pos_def t_row_def t_col_def t_val_def)
    then show "p \<in> pattern (zeroPad ?R dofs (cols jm))"
      using p j by (simp add: t_pos_def t_row_def t_col_def)
  qed
  have rt: "pattern (zeroPad ?R dofs (cols jm)) = pattern jm \<longleftrightarrow> snd ` pattern jm \<subseteq> set dofs"
    unfolding pat by force
  have dims: "rows ?R = rows jm" "cols ?R = length dofs" by (simp_all add: setFrom_def)
  show ?thesis
    using res dims wfR sR set_ts pat rt by (intro exI[of _ ?R]) simp
qed

theorem restrictJumpMatrix_columns_witness:
  "wf_matrix \<lparr>rows = 2, cols = 4, stored = [(0, 1, 1), (0, 3, 5), (1, 0, 7), (1, 3, 2)]\<rparr> \<and>
   (\<exists>R. restrictJumpMatrix
          \<lparr>rows = 2, cols = 4, stored = [(0, 1, 1), (0, 3, 5), (1, 0, 7), (1, 3, 2)]\<rparr> [3, 1] = Inr R \<and>
        rows R = 2 \<and> cols R = 2 \<and> wf_matrix R \<and>
        set (stored R) = {(0, 0, 5), (0, 1, 1), (1, 0, 2)})"
proof -
  let ?J = "\<lparr>rows = 2, cols = 4, stored = [(0, 1, 1), (0, 3, 5), (1, 0, 7), (1, 3, 2)]\<rparr>"
  have wf: "wf_matrix ?J"
    by (simp add: wf_matrix_def t_pos_def t_row_def t_col_def)
  have d: "distinct [3, 1 :: nat]" by simp
  have r: "\<forall>d\<in>set [3, 1 :: nat]. d < cols ?J" by simp
  from restrictJumpMatrix_columns[OF wf d r] obtain R where
    R: "restrictJumpMatrix ?J [3, 1] = Inr R" "rows R = rows ?J" "cols R = length [3, 1 :: nat]"
       "wf_matrix R"
    by blast
  have "restrictJumpMatrix ?J [3, 1] =
      Inr \<lparr>rows = 2, cols = 2, stored = [(0, 0, 5), (0, 1, 1), (1, 0, 2)]\<rparr>"
    by (simp add: restrictJumpMatrix_def setFrom_def t_pos_def t_row_def t_col_def t_val_def
        row_major_def)
  with R have "set (stored R) = {(0, 0, 5), (0, 1, 1), (1, 0, 2)}" by auto
  with R wf show ?thesis by simp
qed

text \<open>
  The round trip of C8 as the claim states it, for every duplicate-free list of valid
  columns, fails: the one-row matrix \<open>[1, 1]\<close> restricted to column 0 and padded again
  is \<open>[1, 0]\<close>.
\<close>

theorem restrictJumpMatrix_roundtrip_counterexample:
  "wf_matrix \<lparr>rows = 1, cols = 2, stored = [(0, 0, 1), (0, 1, 1)]\<rparr> \<and>
   distinct [0 :: nat] \<and>
   restrictJumpMatrix \<lparr>rows = 1, cols = 2, stored = [(0, 0, 1), (0, 1, 1)]\<rparr> [0] =
     Inr \<lparr>rows = 1, cols = 1, stored = [(0, 0, 1)]\<rparr> \<and>
   pattern (zeroPad \<lparr>rows = 1, cols = 1, stored = [(0, 0, 1)]\<rparr> [0] 2) = {(0, 0)} \<and>
   pattern \<lparr>rows = 1, cols = 2, stored = [(0, 0, 1), (0, 1, 1)]\<rparr> = {(0, 0), (0, 1)} \<and>
   pattern (zeroPad \<lparr>rows = 1, cols = 1, stored = [(0, 0, 1)]\<rparr> [0] 2) \<noteq>
     pattern \<lparr>rows = 1, cols = 2, stored = [(0, 0, 1), (0, 1, 1)]\<rparr>"
  by (simp add: wf_matrix_def restrictJumpMatrix_def setFrom_def zeroPad_def pattern_def
      t_pos_def t_row_def t_col_def t_val_def row_major_def)

section \<open>The Schur complement\<close>

text \<open>
  The second loop of \<open>schurComplement\<close> over \<open>reverse\<close>:
  \<^verbatim>\<open>index_t j=0; for (i=0; i<mat.cols(); ++i) if (reverse[i]==0) reverse[i] = --j;\<close>
  The kept dofs hold their position plus one, the eliminated ones get \<open>-1, -2, \<dots>\<close> in
  increasing order of the index.
\<close>

fun fill_from :: "int list \<Rightarrow> nat list \<Rightarrow> int \<Rightarrow> int list" where
  "fill_from reverse [] j = reverse"
| "fill_from reverse (i # is) j =
     (if reverse ! i = 0 then fill_from (reverse[i := j - 1]) is (j - 1)
      else fill_from reverse is j)"

definition fill_negative :: "int list \<Rightarrow> int list" where
  "fill_negative reverse = fill_from reverse [0..<length reverse] 0"

text \<open>
  The loop over the stored entries: every entry goes to one of the four lists of
  triplets, by the signs of \<open>reverse\<close> at its row and at its column, at the position
  that \<open>reverse\<close> gives; the entries of \<open>A11\<close> are stored with the opposite sign.
\<close>

fun sort_entries ::
  "int list \<Rightarrow> triplet list \<Rightarrow>
   error + (triplet list \<times> triplet list \<times> triplet list \<times> triplet list)" where
  "sort_entries reverse [] = Inr ([], [], [], [])"
| "sort_entries reverse (it # its) =
     (if t_row it < length reverse \<and> t_col it < length reverse then
        (case sort_entries reverse its of
           Inl e \<Rightarrow> Inl e
         | Inr (se_A00, se_A10, se_A01, se_A11) \<Rightarrow>
             (let r = reverse ! t_row it; c = reverse ! t_col it in
              if r > 0 \<and> c > 0 then
                Inr ((nat (r - 1), nat (c - 1), t_val it) # se_A00, se_A10, se_A01, se_A11)
              else if r > 0 \<and> c < 0 then
                Inr (se_A00, se_A10, (nat (r - 1), nat (- c - 1), t_val it) # se_A01, se_A11)
              else if r < 0 \<and> c > 0 then
                Inr (se_A00, (nat (- r - 1), nat (c - 1), t_val it) # se_A10, se_A01, se_A11)
              else
                Inr (se_A00, se_A10, se_A01,
                     (nat (- r - 1), nat (- c - 1), - t_val it) # se_A11)))
      else Inl IndexOutOfRange)"

text \<open>
  The argument of the three calls
  \<^verbatim>\<open>reserve( 2 * mat.nonZeros() * dofs.size() / mat.rows() )\<close>
  between the loops over \<open>reverse\<close> and the loop over the entries: an integer division
  by the number of rows of the matrix.  The reserved size has no effect on the result.
\<close>

definition reserve_size :: "gsSparseMatrix \<Rightarrow> nat list \<Rightarrow> error + nat" where
  "reserve_size mat dofs =
     (if rows mat = 0 then Inl (DivisionByZero ReserveDiv)
      else Inr (2 * length (stored mat) * length dofs div rows mat))"

text \<open>
  The four blocks \<open>A00\<close>, \<open>A10\<close>, \<open>A01\<close> and \<open>A11\<close> as \<open>schurComplement\<close> builds them.
  More kept dofs than rows would make a dimension negative.
\<close>

definition schurBlocks ::
  "gsSparseMatrix \<Rightarrow> nat list \<Rightarrow>
   error + (gsSparseMatrix \<times> gsSparseMatrix \<times> gsSparseMatrix \<times> gsSparseMatrix)" where
  "schurBlocks mat dofs =
     (case set_reverse (replicate (cols mat) 0) dofs 0 of
        Inl e \<Rightarrow> Inl e
      | Inr reverse0 \<Rightarrow>
          (case reserve_size mat dofs of
             Inl e \<Rightarrow> Inl e
           | Inr reserved \<Rightarrow>
               (case sort_entries (fill_negative reverse0) (stored mat) of
                  Inl e \<Rightarrow> Inl e
                | Inr (se_A00, se_A10, se_A01, se_A11) \<Rightarrow>
                    if length dofs \<le> rows mat then
                      Inr (setFrom col_major (length dofs) (length dofs) se_A00,
                           setFrom col_major (rows mat - length dofs) (length dofs) se_A10,
                           setFrom col_major (length dofs) (rows mat - length dofs) se_A01,
                           setFrom col_major (rows mat - length dofs) (rows mat - length dofs)
                             se_A11)
                    else Inl IndexOutOfRange)))"

text \<open>
  \<open>schurComplement\<close>: the sum of \<open>A00\<close> and the product of \<open>A10\<close>, the solver for the
  stored \<open>A11\<close> and \<open>A01\<close>.  \<open>makeSparseCholeskySolver\<close> is the parameter
  \<open>solver\<close>.
\<close>

definition schurComplement ::
  "(gsSparseMatrix \<Rightarrow> gsLinearOperator) \<Rightarrow> gsSparseMatrix \<Rightarrow> nat list \<Rightarrow>
   error + gsLinearOperator" where
  "schurComplement solver mat dofs =
     (case schurBlocks mat dofs of
        Inl e \<Rightarrow> Inl e
      | Inr (A00, A10, A01, A11) \<Rightarrow>
          Inr (SumOp (MatrixOp A00)
                 (ProductOp [MatrixOp A10, solver A11, MatrixOp A01])))"

text \<open>
  The explicit Schur complement, as the specification words it.  The coefficient of a
  matrix at a position is the sum of the values stored there; the eliminated indices
  are the ones that are not kept, in increasing order; the blocks are the coefficients
  of the matrix at the kept and at the eliminated indices; a block times a vector is the
  dense product.
\<close>

definition entry :: "gsSparseMatrix \<Rightarrow> nat \<Rightarrow> nat \<Rightarrow> real" where
  "entry m i j = (\<Sum>e\<leftarrow>filter (\<lambda>e. t_pos e = (i, j)) (stored m). t_val e)"

definition eliminated :: "nat list \<Rightarrow> nat \<Rightarrow> nat list" where
  "eliminated dofs n = filter (\<lambda>i. i \<notin> set dofs) [0..<n]"

definition block :: "gsSparseMatrix \<Rightarrow> nat list \<Rightarrow> nat list \<Rightarrow> nat \<Rightarrow> nat \<Rightarrow> real" where
  "block m rs cs i j = entry m (rs ! i) (cs ! j)"

definition dense_mult :: "(nat \<Rightarrow> nat \<Rightarrow> real) \<Rightarrow> nat \<Rightarrow> nat \<Rightarrow> vec \<Rightarrow> vec" where
  "dense_mult a r c x = map (\<lambda>i. \<Sum>j<c. a i j * x ! j) [0..<r]"

text \<open>
  A sparse matrix represents a square array of coefficients of a given dimension when it
  has that dimension, its stored entries lie inside it and its coefficients are those of
  the array.  A solver realises the inverse of such a matrix when, for every right-hand
  side, the operator made for the matrix returns a solution of the system with the
  matrix.
\<close>

definition represents :: "gsSparseMatrix \<Rightarrow> (nat \<Rightarrow> nat \<Rightarrow> real) \<Rightarrow> nat \<Rightarrow> bool" where
  "represents A a k \<longleftrightarrow>
     rows A = k \<and> cols A = k \<and>
     (\<forall>e\<in>set (stored A). t_row e < k \<and> t_col e < k) \<and>
     (\<forall>i<k. \<forall>j<k. entry A i j = a i j)"

definition realises_inverse ::
  "(gsSparseMatrix \<Rightarrow> gsLinearOperator) \<Rightarrow> (nat \<Rightarrow> nat \<Rightarrow> real) \<Rightarrow> nat \<Rightarrow> bool" where
  "realises_inverse solver a k \<longleftrightarrow>
     (\<forall>A b. represents A a k \<and> length b = k \<longrightarrow>
        (\<exists>y. apply_op (solver A) b = Inr y \<and> length y = k \<and> mult_vec A y = Inr b))"

section \<open>Registration and configuration checks\<close>

text \<open>
  Claim C1, as amended.  \<open>addSubdomain\<close> compares no row counts and has no failing
  branch: for every jump matrix, whatever its row count, it appends the matrix and the
  Schur operator to the registered sequences and a null pointer to each of the two
  sequences of scaling operators, and leaves the scaling vectors as they are; the
  overload for a pair does the same.
\<close>

theorem addSubdomain_appends:
  "m_jumpMatrices (addSubdomain jm S st) = m_jumpMatrices st @ [jm] \<and>
   m_localSchurOps (addSubdomain jm S st) = m_localSchurOps st @ [S] \<and>
   m_localScalingOps (addSubdomain jm S st) = m_localScalingOps st @ [None] \<and>
   m_localScalingTransOps (addSubdomain jm S st) = m_localScalingTransOps st @ [None] \<and>
   m_localScaling (addSubdomain jm S st) = m_localScaling st \<and>
   addSubdomain_pair (jm, S) st = addSubdomain jm S st"
  by (simp add: addSubdomain_def addSubdomain_pair_def)

text \<open>
  The claim C1 as stated fails: a jump matrix of two rows is registered after one of a
  single row, and both are in the sequence of jump matrices afterwards.
\<close>

theorem addSubdomain_mismatch_counterexample:
  "rows \<lparr>rows = 2, cols = 1, stored = [(1, 0, -1)]\<rparr> \<noteq> rows \<lparr>rows = 1, cols = 1, stored = [(0, 0, 1)]\<rparr> \<and>
   m_jumpMatrices
     (addSubdomain \<lparr>rows = 2, cols = 1, stored = [(1, 0, -1)]\<rparr>
        (MatrixOp \<lparr>rows = 1, cols = 1, stored = [(0, 0, 5)]\<rparr>)
        (addSubdomain \<lparr>rows = 1, cols = 1, stored = [(0, 0, 1)]\<rparr>
           (MatrixOp \<lparr>rows = 1, cols = 1, stored = [(0, 0, 3)]\<rparr>) emptyPrec)) =
     [\<lparr>rows = 1, cols = 1, stored = [(0, 0, 1)]\<rparr>, \<lparr>rows = 2, cols = 1, stored = [(1, 0, -1)]\<rparr>]"
  by (simp add: addSubdomain_def emptyPrec_def)

text \<open>
  Claim C6, as amended.  A \<open>GISMO_ASSERT\<close> that fails is the fatal error (the
  specification's \<open>InvalidConfiguration\<close>).  With no subdomain registered,
  \<open>nLagrangeMultipliers\<close> fails; with at least one, it returns the row count of the
  first registered jump matrix, which is the shared row count when all registered
  matrices agree.  \<open>preconditioner\<close> fails when subdomains are registered and the
  scaling was never computed, and whenever the numbers of jump matrices and of scaling
  vectors differ; with no subdomain registered and no scaling it does not fail: it
  returns the additive operator with no summand.
\<close>

theorem configuration_checks:
  "(m_jumpMatrices st = [] \<longrightarrow> nLagrangeMultipliers st = Inl GismoAssert) \<and>
   (m_jumpMatrices st = jm # jms \<longrightarrow> nLagrangeMultipliers st = Inr (rows jm)) \<and>
   (m_jumpMatrices st \<noteq> [] \<and> (\<forall>B\<in>set (m_jumpMatrices st). rows B = n) \<longrightarrow>
      nLagrangeMultipliers st = Inr n) \<and>
   (m_jumpMatrices st \<noteq> [] \<and> m_localScaling st = [] \<longrightarrow> preconditioner st = Inl GismoAssert) \<and>
   (length (m_jumpMatrices st) \<noteq> length (m_localScaling st) \<longrightarrow>
      preconditioner st = Inl GismoAssert) \<and>
   (m_jumpMatrices st = [] \<and> m_localSchurOps st = [] \<and> m_localScaling st = [] \<longrightarrow>
      preconditioner st = Inr (AdditiveOp []))"
  by (cases "m_jumpMatrices st") (auto simp: nLagrangeMultipliers_def preconditioner_def)

theorem configuration_checks_witness:
  "nLagrangeMultipliers emptyPrec = Inl GismoAssert \<and>
   preconditioner emptyPrec = Inr (AdditiveOp []) \<and>
   nLagrangeMultipliers
     (addSubdomain \<lparr>rows = 1, cols = 1, stored = [(0, 0, 1)]\<rparr>
        (MatrixOp \<lparr>rows = 1, cols = 1, stored = [(0, 0, 3)]\<rparr>) emptyPrec) = Inr 1 \<and>
   preconditioner
     (addSubdomain \<lparr>rows = 1, cols = 1, stored = [(0, 0, 1)]\<rparr>
        (MatrixOp \<lparr>rows = 1, cols = 1, stored = [(0, 0, 3)]\<rparr>) emptyPrec) = Inl GismoAssert"
proof -
  let ?B = "\<lparr>rows = 1, cols = 1, stored = [(0, 0, 1)]\<rparr>"
  let ?st = "addSubdomain ?B (MatrixOp \<lparr>rows = 1, cols = 1, stored = [(0, 0, 3)]\<rparr>) emptyPrec"
  have e: "m_jumpMatrices emptyPrec = []" "m_localSchurOps emptyPrec = []"
    "m_localScaling emptyPrec = []"
    by (simp_all add: emptyPrec_def)
  have r: "m_jumpMatrices ?st = ?B # []" "m_jumpMatrices ?st \<noteq> []" "m_localScaling ?st = []"
    by (simp_all add: emptyPrec_def addSubdomain_def)
  from configuration_checks[of emptyPrec ?B "[]" 1] e
  have 1: "nLagrangeMultipliers emptyPrec = Inl GismoAssert"
    "preconditioner emptyPrec = Inr (AdditiveOp [])"
    by simp_all
  from configuration_checks[of ?st ?B "[]" 1] r
  have 2: "nLagrangeMultipliers ?st = Inr (rows ?B)" "preconditioner ?st = Inl GismoAssert"
    by simp_all
  from 1 2 show ?thesis by simp
qed

text \<open>
  The claim C6 as stated fails for \<open>preconditioner\<close> with zero subdomains: both
  assertions compare the sizes of empty vectors and hold, and the result is an operator.
\<close>

theorem preconditioner_empty_counterexample:
  "m_jumpMatrices emptyPrec = [] \<and> preconditioner emptyPrec = Inr (AdditiveOp []) \<and>
   preconditioner emptyPrec \<noteq> Inl GismoAssert"
  by (simp add: emptyPrec_def preconditioner_def)

section \<open>Multiplicity scaling\<close>

text \<open>The number of stored entries of a column.\<close>

definition col_count :: "triplet list \<Rightarrow> nat \<Rightarrow> nat" where
  "col_count es c = length (filter (\<lambda>e. t_col e = c) es)"

lemma col_count_Cons:
  "col_count (e # es) c = (if t_col e = c then Suc (col_count es c) else col_count es c)"
  by (simp add: col_count_def)

lemma bump_cols_closed:
  "\<forall>e\<in>set es. t_col e < length sc \<Longrightarrow>
   bump_cols sc es = Inr (map (\<lambda>c. sc ! c + real (col_count es c)) [0..<length sc])"
proof (induction es arbitrary: sc)
  case Nil
  show ?case by (simp add: col_count_def map_nth)
next
  case (Cons e es)
  let ?sc = "sc[t_col e := sc ! t_col e + 1]"
  from Cons.prems have e: "t_col e < length sc" and r: "\<forall>x\<in>set es. t_col x < length ?sc"
    by simp_all
  have "bump_cols sc (e # es) = bump_cols ?sc es" using e by simp
  also have "\<dots> = Inr (map (\<lambda>c. ?sc ! c + real (col_count es c)) [0..<length ?sc])"
    by (rule Cons.IH[OF r])
  also have "map (\<lambda>c. ?sc ! c + real (col_count es c)) [0..<length ?sc] =
             map (\<lambda>c. sc ! c + real (col_count (e # es) c)) [0..<length sc]"
    using e by (auto simp: col_count_Cons nth_list_update)
  finally show ?case .
qed

lemma col_count_card:
  assumes "distinct (map t_pos es)"
  shows "col_count es c = card {r. (r, c) \<in> t_pos ` set es}"
proof -
  let ?f = "filter (\<lambda>e. t_col e = c) es"
  have d: "distinct (map t_pos ?f)" using assms by (rule distinct_map_filter)
  have "inj_on t_row (set ?f)"
  proof (rule inj_onI)
    fix a b assume "a \<in> set ?f" "b \<in> set ?f" "t_row a = t_row b"
    then have "a \<in> set ?f" "b \<in> set ?f" "t_pos a = t_pos b" by (auto simp: t_pos_def)
    with d show "a = b" by (meson distinct_map inj_onD)
  qed
  moreover have "distinct ?f" using d by (simp add: distinct_map)
  ultimately have "distinct (map t_row ?f)" by (simp add: distinct_map)
  then have "card (set (map t_row ?f)) = length ?f"
    using distinct_card[of "map t_row ?f"] by simp
  moreover have "set (map t_row ?f) = {r. (r, c) \<in> t_pos ` set es}"
    by (auto simp: t_pos_def image_iff)
  ultimately show ?thesis by (simp add: col_count_def)
qed

text \<open>The scaling vector that the loop body computes for one subdomain, in closed form.\<close>

definition multiplicity :: "gsSparseMatrix \<times> gsLinearOperator \<Rightarrow> vec" where
  "multiplicity k = map (\<lambda>c. 1 + real (col_count (stored (fst k)) c)) [0..<op_rows (snd k)]"

lemma scaling_loop_closed:
  "\<forall>k\<in>set ks. \<forall>e\<in>set (stored (fst k)). t_col e < op_rows (snd k) \<Longrightarrow>
   scaling_loop ks = Inr (map multiplicity ks)"
proof (induction ks)
  case Nil
  show ?case by simp
next
  case (Cons k ks)
  have "bump_cols (replicate (op_rows (snd k)) 1) (stored (fst k)) = Inr (multiplicity k)"
    using Cons.prems bump_cols_closed[of "stored (fst k)" "replicate (op_rows (snd k)) 1"]
    by (simp add: multiplicity_def)
  moreover have "scaling_loop ks = Inr (map multiplicity ks)"
    using Cons by simp
  ultimately show ?case by simp
qed

text \<open>
  Claim C5, as amended.  When as many Schur operators as jump matrices are registered,
  every jump matrix is well formed and has no more columns than its Schur operator has
  rows, \<open>setupMultiplicityScaling\<close> succeeds, and for every subdomain \<open>k\<close> and every
  local dof \<open>c\<close> the stored scaling value is one plus the number of rows of the jump
  matrix of \<open>k\<close> that hold a stored entry in column \<open>c\<close>, whatever its value; for a
  jump matrix that stores no zero this is one plus the number of rows with a nonzero
  entry in that column.  Every scaling value is at least one and strictly positive.
\<close>

theorem setupMultiplicityScaling_counts:
  assumes len: "length (m_jumpMatrices st) = length (m_localSchurOps st)"
    and ok: "\<forall>k<length (m_jumpMatrices st).
               wf_matrix (m_jumpMatrices st ! k) \<and>
               cols (m_jumpMatrices st ! k) \<le> op_rows (m_localSchurOps st ! k)"
  shows "\<exists>st'. setupMultiplicityScaling st = Inr st' \<and>
           m_jumpMatrices st' = m_jumpMatrices st \<and>
           m_localSchurOps st' = m_localSchurOps st \<and>
           length (m_localScaling st') = length (m_jumpMatrices st) \<and>
           (\<forall>k<length (m_jumpMatrices st).
              length (m_localScaling st' ! k) = op_rows (m_localSchurOps st ! k) \<and>
              (\<forall>c<op_rows (m_localSchurOps st ! k).
                 m_localScaling st' ! k ! c =
                   1 + real (card {r. (r, c) \<in> pattern (m_jumpMatrices st ! k)}) \<and>
                 (no_stored_zero (m_jumpMatrices st ! k) \<longrightarrow>
                    m_localScaling st' ! k ! c =
                      1 + real (card {r. (r, c) \<in> nonzero_pattern (m_jumpMatrices st ! k)})) \<and>
                 1 \<le> m_localScaling st' ! k ! c \<and> 0 < m_localScaling st' ! k ! c))"
proof -
  let ?ks = "zip (m_jumpMatrices st) (m_localSchurOps st)"
  let ?st = "st\<lparr>m_localScaling := map multiplicity ?ks\<rparr>"
  have inside: "\<forall>k\<in>set ?ks. \<forall>e\<in>set (stored (fst k)). t_col e < op_rows (snd k)"
  proof (intro ballI)
    fix k e assume k: "k \<in> set ?ks" and e: "e \<in> set (stored (fst k))"
    from k obtain i where i: "i < length (m_jumpMatrices st)"
      "k = (m_jumpMatrices st ! i, m_localSchurOps st ! i)"
      using len by (auto simp: in_set_zip)
    with ok have "wf_matrix (fst k)" "cols (fst k) \<le> op_rows (snd k)" by auto
    then show "t_col e < op_rows (snd k)"
      using e by (force simp: wf_matrix_def list_all_iff)
  qed
  have run: "setupMultiplicityScaling st = Inr ?st"
    using len scaling_loop_closed[OF inside] by (simp add: setupMultiplicityScaling_def)
  have vals: "length (m_localScaling ?st ! k) = op_rows (m_localSchurOps st ! k) \<and>
      (\<forall>c<op_rows (m_localSchurOps st ! k).
         m_localScaling ?st ! k ! c =
           1 + real (card {r. (r, c) \<in> pattern (m_jumpMatrices st ! k)}) \<and>
         (no_stored_zero (m_jumpMatrices st ! k) \<longrightarrow>
            m_localScaling ?st ! k ! c =
              1 + real (card {r. (r, c) \<in> nonzero_pattern (m_jumpMatrices st ! k)})) \<and>
         1 \<le> m_localScaling ?st ! k ! c \<and> 0 < m_localScaling ?st ! k ! c)"
    if k: "k < length (m_jumpMatrices st)" for k
  proof -
    have d: "distinct (map t_pos (stored (m_jumpMatrices st ! k)))"
      using ok k by (simp add: wf_matrix_def)
    have m: "m_localScaling ?st ! k =
        multiplicity (m_jumpMatrices st ! k, m_localSchurOps st ! k)"
      using k len by simp
    show ?thesis
      unfolding m using col_count_card[OF d]
      by (simp add: multiplicity_def pattern_def nonzero_pattern_eq)
  qed
  show ?thesis
  proof (intro exI[of _ ?st] conjI)
    show "setupMultiplicityScaling st = Inr ?st" by (rule run)
    show "m_jumpMatrices ?st = m_jumpMatrices st" by simp
    show "m_localSchurOps ?st = m_localSchurOps st" by simp
    show "length (m_localScaling ?st) = length (m_jumpMatrices st)" using len by simp
    show "\<forall>k<length (m_jumpMatrices st).
      length (m_localScaling ?st ! k) = op_rows (m_localSchurOps st ! k) \<and>
      (\<forall>c<op_rows (m_localSchurOps st ! k).
         m_localScaling ?st ! k ! c =
           1 + real (card {r. (r, c) \<in> pattern (m_jumpMatrices st ! k)}) \<and>
         (no_stored_zero (m_jumpMatrices st ! k) \<longrightarrow>
            m_localScaling ?st ! k ! c =
              1 + real (card {r. (r, c) \<in> nonzero_pattern (m_jumpMatrices st ! k)})) \<and>
         1 \<le> m_localScaling ?st ! k ! c \<and> 0 < m_localScaling ?st ! k ! c)"
      by (intro allI impI) (rule vals)
  qed
qed

theorem setupMultiplicityScaling_counts_witness:
  "\<exists>st'. setupMultiplicityScaling
           (addSubdomain \<lparr>rows = 2, cols = 2, stored = [(0, 1, 1), (1, 1, -1)]\<rparr>
              (MatrixOp \<lparr>rows = 2, cols = 2, stored = [(0, 0, 4), (1, 1, 4)]\<rparr>) emptyPrec) = Inr st' \<and>
         m_localScaling st' = [[1, 3]] \<and>
         length (m_localScaling st') = 1 \<and> 0 < m_localScaling st' ! 0 ! 1 \<and>
         1 + real (card {r. (r, 1) \<in> nonzero_pattern
                      \<lparr>rows = 2, cols = 2, stored = [(0, 1, 1), (1, 1, -1)]\<rparr>}) = 3"
proof -
  let ?B = "\<lparr>rows = 2, cols = 2, stored = [(0, 1, 1), (1, 1, -1)]\<rparr>"
  let ?S = "MatrixOp \<lparr>rows = 2, cols = 2, stored = [(0, 0, 4), (1, 1, 4)]\<rparr>"
  let ?st = "addSubdomain ?B ?S emptyPrec"
  have jm: "m_jumpMatrices ?st = [?B]" and so: "m_localSchurOps ?st = [?S]"
    by (simp_all add: addSubdomain_def emptyPrec_def)
  have len: "length (m_jumpMatrices ?st) = length (m_localSchurOps ?st)"
    unfolding jm so by simp
  have wf: "wf_matrix ?B"
    by (simp add: wf_matrix_def t_pos_def t_row_def t_col_def)
  have nz: "no_stored_zero ?B"
    by (simp add: no_stored_zero_def t_val_def)
  have ok: "\<forall>k<length (m_jumpMatrices ?st).
      wf_matrix (m_jumpMatrices ?st ! k) \<and>
      cols (m_jumpMatrices ?st ! k) \<le> op_rows (m_localSchurOps ?st ! k)"
    unfolding jm so using wf by simp
  from setupMultiplicityScaling_counts[OF len ok] obtain st' where
    st': "setupMultiplicityScaling ?st = Inr st'"
    and all: "\<forall>k<length (m_jumpMatrices ?st).
         length (m_localScaling st' ! k) = op_rows (m_localSchurOps ?st ! k) \<and>
         (\<forall>c<op_rows (m_localSchurOps ?st ! k).
            m_localScaling st' ! k ! c =
              1 + real (card {r. (r, c) \<in> pattern (m_jumpMatrices ?st ! k)}) \<and>
            (no_stored_zero (m_jumpMatrices ?st ! k) \<longrightarrow>
               m_localScaling st' ! k ! c =
                 1 + real (card {r. (r, c) \<in> nonzero_pattern (m_jumpMatrices ?st ! k)})) \<and>
            1 \<le> m_localScaling st' ! k ! c \<and> 0 < m_localScaling st' ! k ! c)"
    by (elim exE conjE)
  have "setupMultiplicityScaling ?st = Inr (?st\<lparr>m_localScaling := [[1, 3]]\<rparr>)"
    by (simp add: setupMultiplicityScaling_def addSubdomain_def emptyPrec_def t_col_def
        numeral_2_eq_2)
  with st' have v: "m_localScaling st' = [[1, 3]]" by auto
  have k0: "(0::nat) < length (m_jumpMatrices ?st)" unfolding jm by simp
  have c1: "(1::nat) < op_rows (m_localSchurOps ?st ! 0)" unfolding so by simp
  from all[rule_format, OF k0] have
    "\<forall>c<op_rows (m_localSchurOps ?st ! 0).
            m_localScaling st' ! 0 ! c =
              1 + real (card {r. (r, c) \<in> pattern (m_jumpMatrices ?st ! 0)}) \<and>
            (no_stored_zero (m_jumpMatrices ?st ! 0) \<longrightarrow>
               m_localScaling st' ! 0 ! c =
                 1 + real (card {r. (r, c) \<in> nonzero_pattern (m_jumpMatrices ?st ! 0)})) \<and>
            1 \<le> m_localScaling st' ! 0 ! c \<and> 0 < m_localScaling st' ! 0 ! c"
    by (rule conjunct2)
  from this[rule_format, OF c1] have
    p: "0 < m_localScaling st' ! 0 ! 1"
    and q: "no_stored_zero (m_jumpMatrices ?st ! 0) \<longrightarrow>
       m_localScaling st' ! 0 ! 1 =
         1 + real (card {r. (r, 1) \<in> nonzero_pattern (m_jumpMatrices ?st ! 0)})"
    by blast+
  have j0: "m_jumpMatrices ?st ! 0 = ?B" unfolding jm by simp
  from q nz have "m_localScaling st' ! 0 ! 1 = 1 + real (card {r. (r, 1) \<in> nonzero_pattern ?B})"
    unfolding j0 by blast
  moreover have "m_localScaling st' ! 0 ! 1 = 3" unfolding v by simp
  ultimately have e: "1 + real (card {r. (r, 1) \<in> nonzero_pattern ?B}) = 3" by simp
  have l: "length (m_localScaling st') = 1" unfolding v by simp
  from st' v l p e show ?thesis by blast
qed

text \<open>
  The claim C5 as stated, with the number of rows that have a nonzero entry, fails for
  a jump matrix that stores a zero: column 0 of the matrix below holds the value 1 in row
  0 and a stored zero in row 1, a single row with a nonzero entry, and the scaling value
  of the dof is 3, not 2.
\<close>

theorem setupMultiplicityScaling_stored_zero_counterexample:
  "wf_matrix \<lparr>rows = 2, cols = 2, stored = [(0, 0, 1), (1, 0, 0), (1, 1, -1)]\<rparr> \<and>
   setupMultiplicityScaling
     (addSubdomain \<lparr>rows = 2, cols = 2, stored = [(0, 0, 1), (1, 0, 0), (1, 1, -1)]\<rparr>
        (MatrixOp \<lparr>rows = 2, cols = 2, stored = [(0, 0, 4), (1, 1, 4)]\<rparr>) emptyPrec) =
     Inr ((addSubdomain \<lparr>rows = 2, cols = 2, stored = [(0, 0, 1), (1, 0, 0), (1, 1, -1)]\<rparr>
        (MatrixOp \<lparr>rows = 2, cols = 2, stored = [(0, 0, 4), (1, 1, 4)]\<rparr>) emptyPrec)
          \<lparr>m_localScaling := [[3, 2]]\<rparr>) \<and>
   {r. (r, 0) \<in> nonzero_pattern
        \<lparr>rows = 2, cols = 2, stored = [(0, 0, 1), (1, 0, 0), (1, 1, -1)]\<rparr>} = {0} \<and>
   1 + real (card {r. (r, 0) \<in> nonzero_pattern
        \<lparr>rows = 2, cols = 2, stored = [(0, 0, 1), (1, 0, 0), (1, 1, -1)]\<rparr>}) \<noteq> 3"
proof -
  let ?B = "\<lparr>rows = 2, cols = 2, stored = [(0, 0, 1), (1, 0, 0), (1, 1, -1)]\<rparr>"
  have n: "{r. (r, 0) \<in> nonzero_pattern ?B} = {0}"
    by (auto simp: nonzero_pattern_def t_pos_def t_row_def t_col_def t_val_def)
  have w: "wf_matrix ?B"
    by (simp add: wf_matrix_def t_pos_def t_row_def t_col_def)
  have r: "setupMultiplicityScaling
     (addSubdomain ?B (MatrixOp \<lparr>rows = 2, cols = 2, stored = [(0, 0, 4), (1, 1, 4)]\<rparr>) emptyPrec) =
     Inr ((addSubdomain ?B
        (MatrixOp \<lparr>rows = 2, cols = 2, stored = [(0, 0, 4), (1, 1, 4)]\<rparr>) emptyPrec)
          \<lparr>m_localScaling := [[3, 2]]\<rparr>)"
    by (simp add: setupMultiplicityScaling_def addSubdomain_def emptyPrec_def t_col_def
        numeral_2_eq_2)
  show ?thesis unfolding n using w r by simp
qed

section \<open>Two subdomains that share one dof\<close>

text \<open>
  The scenario of the specification: one Lagrange multiplier couples the last of the
  three dofs of each of two subdomains, with the jump rows \<open>[0, 0, 1]\<close> and
  \<open>[0, 0, -1]\<close>.  The local Schur complement on the single skeleton dof is the
  multiplication by a number, the Schur value of the side.
\<close>

definition jump_row :: "real \<Rightarrow> gsSparseMatrix" where
  "jump_row v = \<lparr>rows = 1, cols = 3, stored = [(0, 2, v)]\<rparr>"

definition skeleton_jump :: "real \<Rightarrow> gsSparseMatrix" where
  "skeleton_jump v = \<lparr>rows = 1, cols = 1, stored = [(0, 0, v)]\<rparr>"

definition scalar_op :: "real \<Rightarrow> gsLinearOperator" where
  "scalar_op s = MatrixOp \<lparr>rows = 1, cols = 1, stored = [(0, 0, s)]\<rparr>"

definition two_sides :: "real \<Rightarrow> real \<Rightarrow> gsScaledDirichletPrec" where
  "two_sides s1 s2 =
     addSubdomain (skeleton_jump (- 1)) (scalar_op s2)
       (addSubdomain (skeleton_jump 1) (scalar_op s1) emptyPrec)"

text \<open>
  Modelled from the spec: the additive operator in the words of the specification,
  \<open>Additive({(T\<^sub>k, Op\<^sub>k)}).apply(x) = \<Sum>\<^sub>k T\<^sub>k\<^sup>T Op\<^sub>k.apply(T\<^sub>k x)\<close>, which is the operator of
  the class documentation with every transfer matrix transposed.
\<close>

definition apply_additive_spec :: "(gsSparseMatrix \<times> gsLinearOperator) list \<Rightarrow> vec \<Rightarrow> error + vec" where
  "apply_additive_spec ts x =
     apply_additive (map (\<lambda>t. (transposed (fst t), snd t)) ts) x (replicate (length x) 0)"

lemma skeleton_of_jump_row: "getSkeletonDofs (jump_row v) = [2]"
  by (simp add: getSkeletonDofs_def jump_row_def t_col_def)

lemma restrict_jump_row: "restrictJumpMatrix (jump_row v) [2] = Inr (skeleton_jump v)"
  by (simp add: restrictJumpMatrix_def jump_row_def skeleton_jump_def setFrom_def t_col_def
      t_row_def t_val_def numeral_3_eq_3 numeral_2_eq_2)

lemma scaling_two_sides:
  "setupMultiplicityScaling (two_sides s1 s2) =
     Inr ((two_sides s1 s2)\<lparr>m_localScaling := [[2], [2]]\<rparr>)"
  by (simp add: setupMultiplicityScaling_def two_sides_def addSubdomain_def emptyPrec_def
      scalar_op_def skeleton_jump_def t_col_def)

lemma preconditioner_two_sides:
  "preconditioner ((two_sides s1 s2)\<lparr>m_localScaling := [[2], [2]]\<rparr>) =
     Inr (AdditiveOp
            [(skeleton_jump 1, local_product (scalar_op (1 / 2)) (scalar_op s1)),
             (skeleton_jump (- 1), local_product (scalar_op (1 / 2)) (scalar_op s2))])"
  by (simp add: preconditioner_def two_sides_def addSubdomain_def emptyPrec_def
      scalar_op_def skeleton_jump_def checked_div_def numeral_2_eq_2)

lemma apply_one_side_scaled:
  "apply_op (AdditiveOp [(skeleton_jump b, local_product (scalar_op (1 / 2)) (scalar_op s))]) [1] =
     Inr [b * (s * b / 4)]"
  by (simp add: local_product_def scalar_op_def skeleton_jump_def mult_vec_def transposed_def
      vec_add_def t_col_def t_row_def t_val_def)

lemma apply_one_side_unscaled:
  "apply_op (AdditiveOp [(skeleton_jump b, scalar_op s)]) [1] = Inr [b * (s * b)]"
  by (simp add: scalar_op_def skeleton_jump_def mult_vec_def transposed_def
      vec_add_def t_col_def t_row_def t_val_def)

lemma apply_both_sides:
  "apply_op (AdditiveOp
       [(skeleton_jump 1, local_product (scalar_op (1 / 2)) (scalar_op s1)),
        (skeleton_jump (- 1), local_product (scalar_op (1 / 2)) (scalar_op s2))]) [1] =
     Inr [s1 / 4 + s2 / 4]"
  by (simp add: local_product_def scalar_op_def skeleton_jump_def mult_vec_def transposed_def
      vec_add_def t_col_def t_row_def t_val_def)

lemma apply_both_sides_spec:
  "apply_additive_spec
       [(skeleton_jump 1, local_product (scalar_op (1 / 2)) (scalar_op s1)),
        (skeleton_jump (- 1), local_product (scalar_op (1 / 2)) (scalar_op s2))] [1] =
     Inr [s1 / 4 + s2 / 4]"
  by (simp add: apply_additive_spec_def local_product_def scalar_op_def skeleton_jump_def
      mult_vec_def transposed_def vec_add_def t_col_def t_row_def t_val_def)

text \<open>
  Claim C4.  For the two sides with the Schur values \<open>s1\<close> and \<open>s2\<close>: the skeleton of each
  jump row is the shared dof, the restricted jump matrices are \<open>[1]\<close> and \<open>[-1]\<close>,
  multiplicity scaling stores 2 for the shared dof on each side, the preconditioner is
  the additive operator of the two products of the scaling \<open>1/2\<close>, the Schur operator
  and the scaling \<open>1/2\<close>, and applied to the unit vector of the multiplier it yields
  \<open>s1/4 + s2/4\<close>: the contribution of each side is a quarter of its unscaled
  contribution, which is its Schur value.  The additive operator in the words of the
  specification yields the same.
\<close>

theorem two_sides_quarter:
  "getSkeletonDofs (jump_row 1) = [2] \<and> getSkeletonDofs (jump_row (- 1)) = [2] \<and>
   restrictJumpMatrix (jump_row 1) [2] = Inr (skeleton_jump 1) \<and>
   restrictJumpMatrix (jump_row (- 1)) [2] = Inr (skeleton_jump (- 1)) \<and>
   setupMultiplicityScaling (two_sides s1 s2) =
     Inr ((two_sides s1 s2)\<lparr>m_localScaling := [[2], [2]]\<rparr>) \<and>
   preconditioner ((two_sides s1 s2)\<lparr>m_localScaling := [[2], [2]]\<rparr>) =
     Inr (AdditiveOp
            [(skeleton_jump 1, local_product (scalar_op (1 / 2)) (scalar_op s1)),
             (skeleton_jump (- 1), local_product (scalar_op (1 / 2)) (scalar_op s2))]) \<and>
   apply_op (AdditiveOp
       [(skeleton_jump 1, local_product (scalar_op (1 / 2)) (scalar_op s1)),
        (skeleton_jump (- 1), local_product (scalar_op (1 / 2)) (scalar_op s2))]) [1] =
     Inr [s1 / 4 + s2 / 4] \<and>
   apply_op (AdditiveOp [(skeleton_jump 1, scalar_op s1)]) [1] = Inr [s1] \<and>
   apply_op (AdditiveOp [(skeleton_jump 1, local_product (scalar_op (1 / 2)) (scalar_op s1))]) [1] =
     Inr [s1 / 4] \<and>
   apply_op (AdditiveOp [(skeleton_jump (- 1), scalar_op s2)]) [1] = Inr [s2] \<and>
   apply_op (AdditiveOp [(skeleton_jump (- 1), local_product (scalar_op (1 / 2)) (scalar_op s2))]) [1] =
     Inr [s2 / 4] \<and>
   apply_additive_spec
       [(skeleton_jump 1, local_product (scalar_op (1 / 2)) (scalar_op s1)),
        (skeleton_jump (- 1), local_product (scalar_op (1 / 2)) (scalar_op s2))] [1] =
     Inr [s1 / 4 + s2 / 4]"
  using skeleton_of_jump_row restrict_jump_row scaling_two_sides[of s1 s2]
    preconditioner_two_sides[of s1 s2] apply_both_sides[of s1 s2]
    apply_one_side_scaled[of 1 s1] apply_one_side_scaled[of "- 1" s2]
    apply_one_side_unscaled[of 1 s1] apply_one_side_unscaled[of "- 1" s2]
    apply_both_sides_spec[of s1 s2]
  by simp

section \<open>Properties of the BiCGStab step\<close>

lemma bind_err_Inr: "bind_err m f = Inr r \<longleftrightarrow> (\<exists>a. m = Inr a \<and> f a = Inr r)"
  by (cases m) (simp_all add: bind_err_def)

lemma bind_err_InrE:
  assumes "bind_err m f = Inr r"
  obtains a where "m = Inr a" "f a = Inr r"
  using assms by (auto simp: bind_err_Inr)

lemma bind_err_InlE:
  assumes "bind_err m f = Inl e"
  obtains "m = Inl e" | a where "m = Inr a" "f a = Inl e"
  using assms by (cases m) (simp_all add: bind_err_def)

lemma bind_err_cong:
  "(\<And>a. m = Inr a \<Longrightarrow> f a = g a) \<Longrightarrow> bind_err m f = bind_err m g"
  by (cases m) (simp_all add: bind_err_def)

lemma checked_div_Inr: "checked_div site a b = Inr q \<longleftrightarrow> b \<noteq> 0 \<and> q = a / b"
  by (auto simp: checked_div_def)

lemma checked_div_Inl: "checked_div site a b = Inl e \<longleftrightarrow> b = 0 \<and> e = DivisionByZero site"
  by (auto simp: checked_div_def)

lemma checked_dot_Inr: "checked_dot u w = Inr q \<longleftrightarrow> length u = length w \<and> q = dot u w"
  by (auto simp: checked_dot_def)

lemma checked_dot_Inl: "checked_dot u w = Inl e \<longleftrightarrow> length u \<noteq> length w \<and> e = DimensionMismatch"
  by (auto simp: checked_dot_def)

lemma vec_add_Inr: "vec_add u w = Inr r \<longleftrightarrow> length u = length w \<and> r = map2 (+) u w"
  by (auto simp: vec_add_def)

lemma vec_sub_Inr: "vec_sub u w = Inr r \<longleftrightarrow> length u = length w \<and> r = map2 (-) u w"
  by (auto simp: vec_sub_def)

lemma vec_add_Inl: "vec_add u w = Inl e \<longleftrightarrow> length u \<noteq> length w \<and> e = DimensionMismatch"
  by (auto simp: vec_add_def)

lemma vec_sub_Inl: "vec_sub u w = Inl e \<longleftrightarrow> length u \<noteq> length w \<and> e = DimensionMismatch"
  by (auto simp: vec_sub_def)

lemma apply_errors:
  "apply_op a x = Inl e \<Longrightarrow> e = DimensionMismatch"
  "apply_product ops x = Inl e \<Longrightarrow> e = DimensionMismatch"
  "apply_additive ts x acc = Inl e \<Longrightarrow> e = DimensionMismatch"
  by (induction a x and ops x and ts x acc rule: apply_op_apply_product_apply_additive.induct)
     (auto simp: mult_vec_def vec_add_def split: sum.splits if_splits)

lemma omega_of_Inl: "omega_of t s = Inl e \<Longrightarrow> e = DimensionMismatch"
  by (auto simp: omega_of_def checked_dot_def checked_div_def bind_err_def split: if_splits)

lemma omega_of_Inr:
  "omega_of t s = Inr w \<Longrightarrow> w = (if dot t t > 0 then dot t s / dot t t else 0)"
  by (auto simp: omega_of_def checked_dot_def checked_div_def bind_err_def split: if_splits)

lemma step_unfold:
  "step st x =
     bind_err (checked_dot (m_r0 st) (m_res st)) (\<lambda>rho1.
     bind_err (checked_div BetaRhoDiv (rho_of st) (m_rho st)) (\<lambda>q1.
     bind_err (checked_div BetaOmegaDiv (m_alpha st) (m_w st)) (\<lambda>q2.
     bind_err (vec_sub (m_p st) (smult (m_w st) (m_v st))) (\<lambda>d.
     bind_err (vec_add (m_res st) (smult (q1 * q2) d)) (\<lambda>p.
     bind_err (apply_op (m_precond st) p) (\<lambda>y.
     bind_err (apply_op (m_mat st) y) (\<lambda>v.
     bind_err (checked_dot (r0_of st) v) (\<lambda>r0v.
     bind_err (checked_div AlphaDiv (rho_of st) r0v) (\<lambda>alpha.
     bind_err (vec_sub (m_res st) (smult alpha v)) (\<lambda>s.
     bind_err (apply_op (m_precond st) s) (\<lambda>z.
     bind_err (apply_op (m_mat st) z) (\<lambda>t.
     bind_err (omega_of t s) (\<lambda>w.
     bind_err (vec_add (smult alpha y) (smult w z)) (\<lambda>dx.
     bind_err (vec_add x dx) (\<lambda>x'.
     bind_err (vec_add (smult alpha v) (smult w t)) (\<lambda>dr.
     bind_err (vec_sub (m_res st) dr) (\<lambda>res.
     bind_err (checked_div ErrorDiv (norm2 res) (m_rhs_norm st)) (\<lambda>err.
       Inr (err < m_tol st, x',
            st\<lparr>m_rho := rho_of st, m_r0 := r0_of st, m_p := p, m_y := y, m_v := v,
               m_alpha := alpha, m_s := s, m_z := z, m_t := t, m_w := w, m_res := res,
               m_error := err\<rparr>)))))))))))))))))))"
proof -
  have r: "rho_of st =
      (if restart_of st then dot (r0_of st) (r0_of st) else dot (m_r0 st) (m_res st))"
    by (simp add: rho_of_def r0_of_def)
  show ?thesis
    unfolding step_def Let_def
    apply (rule bind_err_cong)
    apply (elim conjE[OF iffD1[OF checked_dot_Inr]])
    apply hypsubst
    apply (fold restart_of_def)
    apply (fold r0_of_def)
    apply (fold r)
    apply (fold omega_of_def)
    apply (rule refl)
    done
qed

lemma step_errors:
  assumes "step st x = Inl e"
  shows "e = DimensionMismatch \<or> e = DivisionByZero BetaRhoDiv \<or>
         e = DivisionByZero BetaOmegaDiv \<or> e = DivisionByZero AlphaDiv \<or>
         e = DivisionByZero ErrorDiv"
  using assms unfolding step_unfold
  by (elim bind_err_InlE)
     (simp_all add: checked_div_Inl checked_dot_Inl vec_add_Inl vec_sub_Inl apply_errors(1)
        omega_of_Inl)

lemma map2_add_zero: "length a = length b \<Longrightarrow> map2 (+) a (smult 0 b) = a"
  by (induction a b rule: list_induct2) (simp_all add: smult_def)

lemma length_smult: "length (smult a v) = length v"
  by (simp add: smult_def)

lemma step_fields:
  assumes "step st x = Inr (c, x', st')"
  shows "m_r0 st' = r0_of st \<and> m_rho st' = rho_of st \<and>
    dot (m_r0 st') (m_v st') \<noteq> 0 \<and> m_alpha st' = m_rho st' / dot (m_r0 st') (m_v st') \<and>
    omega_of (m_t st') (m_s st') = Inr (m_w st') \<and>
    vec_sub (m_res st) (smult (m_alpha st') (m_v st')) = Inr (m_s st') \<and>
    (\<exists>dx dr. vec_add (smult (m_alpha st') (m_y st')) (smult (m_w st') (m_z st')) = Inr dx \<and>
        vec_add x dx = Inr x' \<and>
        vec_add (smult (m_alpha st') (m_v st')) (smult (m_w st') (m_t st')) = Inr dr \<and>
        vec_sub (m_res st) dr = Inr (m_res st'))"
  using assms unfolding step_unfold
  by (elim bind_err_InrE) (clarsimp simp add: checked_div_Inr checked_dot_Inr)

lemma norm2_unit2: "norm2 [1, 0] = 1"
  by (simp add: norm2_def dot_def)

lemma norm2_unit3: "norm2 [0, 0, 1] = 1"
  by (simp add: norm2_def dot_def)

lemma norm2_zero2: "norm2 [0, 0] = 0"
  by (simp add: norm2_def dot_def)

lemma dot_self_nonneg: "0 \<le> dot v v"
proof -
  have "0 \<le> (\<Sum>c\<leftarrow>zip v v. fst c * snd c)"
    by (rule sum_list_nonneg) (auto simp: set_zip)
  then show ?thesis by (simp add: dot_def)
qed

lemma norm2_times_less: "0 < k \<Longrightarrow> norm2 v * k < 1 \<longleftrightarrow> dot v v * (k * k) < 1"
proof -
  assume k: "0 < k"
  have "norm2 v * k < 1 \<longleftrightarrow> norm2 v < 1 / k"
    using k by (simp add: pos_less_divide_eq)
  also have "1 / k = sqrt ((1 / k) * (1 / k))"
  proof -
    have "0 < 1 / k" using k by simp
    then have "\<bar>1 / k\<bar> = 1 / k" by (rule abs_of_pos)
    then show ?thesis by (simp only: real_sqrt_abs2)
  qed
  also have "norm2 v < sqrt ((1 / k) * (1 / k)) \<longleftrightarrow> dot v v < (1 / k) * (1 / k)"
    unfolding norm2_def by (rule real_sqrt_less_iff)
  also have "\<dots> \<longleftrightarrow> dot v v * (k * k) < 1"
    using k by (simp add: pos_less_divide_eq)
  finally show ?thesis .
qed

lemmas solver_eval =
  initIteration_def Base_initIteration_def new_solver_def identityOp_def exchange2_def
  diag12_def mat3_def bind_err_def mult_vec_def vec_sub_def vec_add_def checked_div_def
  t_row_def t_col_def t_val_def numeral_2_eq_2 numeral_3_eq_3 step_def Let_def
  checked_dot_def dot_def smult_def next_step_def restart_of_def
  norm2_unit2 norm2_unit3 norm2_zero2 norm2_times_less

lemma exchange_run:
  "\<exists>st0. initIteration (new_solver exchange2 (identityOp 2) (1 / 10 ^ 10)) [1, 0] [] =
           Inr (False, [0, 0], st0) \<and>
         step st0 [0, 0] = Inl (DivisionByZero AlphaDiv)"
  by (simp add: solver_eval)

text \<open>
  Claim C9.  The division that computes \<open>m_w\<close> is never performed with a zero
  denominator: no step fails at it.  After a step that returns, \<open>m_w\<close> is
  \<open>\<langle>t,s\<rangle> / \<langle>t,t\<rangle>\<close> when \<open>\<langle>t,t\<rangle> > 0\<close> and 0 otherwise, and when \<open>m_w\<close> is 0 the
  stabilisation term drops out of the update: the iterate is \<open>x + \<alpha> y\<close> and the residual
  is \<open>s\<close>.
\<close>

theorem omega_guarded:
  "step st x \<noteq> Inl (DivisionByZero OmegaDiv) \<and>
   (step st x = Inr (c, x', st') \<longrightarrow>
      m_w st' = (if dot (m_t st') (m_t st') > 0
                 then dot (m_t st') (m_s st') / dot (m_t st') (m_t st') else 0) \<and>
      (m_w st' = 0 \<longrightarrow>
         vec_add x (smult (m_alpha st') (m_y st')) = Inr x' \<and> m_res st' = m_s st'))"
proof (intro conjI impI)
  show "step st x \<noteq> Inl (DivisionByZero OmegaDiv)"
    using step_errors[of st x "DivisionByZero OmegaDiv"] by auto
next
  assume s: "step st x = Inr (c, x', st')"
  from step_fields[OF s] have "omega_of (m_t st') (m_s st') = Inr (m_w st')" by simp
  then show "m_w st' = (if dot (m_t st') (m_t st') > 0
                 then dot (m_t st') (m_s st') / dot (m_t st') (m_t st') else 0)"
    by (rule omega_of_Inr)
next
  assume s: "step st x = Inr (c, x', st')" and w: "m_w st' = 0"
  from step_fields[OF s] obtain dx dr where
    sv: "vec_sub (m_res st) (smult (m_alpha st') (m_v st')) = Inr (m_s st')"
    and dx: "vec_add (smult (m_alpha st') (m_y st')) (smult (m_w st') (m_z st')) = Inr dx"
    and x': "vec_add x dx = Inr x'"
    and dr: "vec_add (smult (m_alpha st') (m_v st')) (smult (m_w st') (m_t st')) = Inr dr"
    and res: "vec_sub (m_res st) dr = Inr (m_res st')"
    by blast
  from dx w have "dx = smult (m_alpha st') (m_y st')"
    by (simp add: vec_add_Inr length_smult map2_add_zero)
  with x' show "vec_add x (smult (m_alpha st') (m_y st')) = Inr x'" by simp
  from dr w have "dr = smult (m_alpha st') (m_v st')"
    by (simp add: vec_add_Inr length_smult map2_add_zero)
  with res sv show "m_res st' = m_s st'" by simp
qed

theorem omega_guarded_witness:
  "(\<exists>st0 c x' st'.
      initIteration (new_solver (identityOp 2) (identityOp 2) (1 / 10 ^ 10)) [1, 0] [] =
        Inr (False, [0, 0], st0) \<and>
      step st0 [0, 0] = Inr (c, x', st') \<and> m_w st' = 0 \<and>
      vec_add [0, 0] (smult (m_alpha st') (m_y st')) = Inr x' \<and> m_res st' = m_s st') \<and>
   (\<exists>c x' st'. step probe_state [0, 0] = Inr (c, x', st') \<and> m_w st' = 3 / 5)"
proof -
  have "\<exists>st0 c x' st'.
      initIteration (new_solver (identityOp 2) (identityOp 2) (1 / 10 ^ 10)) [1, 0] [] =
        Inr (False, [0, 0], st0) \<and>
      step st0 [0, 0] = Inr (c, x', st') \<and> m_t st' = [0, 0]"
    by (auto simp add: solver_eval)
  then obtain st0 c x' st' where
    i: "initIteration (new_solver (identityOp 2) (identityOp 2) (1 / 10 ^ 10)) [1, 0] [] =
        Inr (False, [0, 0], st0)"
    and s: "step st0 [0, 0] = Inr (c, x', st')" and t: "m_t st' = [0, 0]"
    by blast
  from omega_guarded[of st0 "[0, 0]" c x' st'] s t
  have "m_w st' = 0 \<and> vec_add [0, 0] (smult (m_alpha st') (m_y st')) = Inr x' \<and>
        m_res st' = m_s st'"
    by (simp add: dot_def)
  with i s have 1: "\<exists>st0 c x' st'.
      initIteration (new_solver (identityOp 2) (identityOp 2) (1 / 10 ^ 10)) [1, 0] [] =
        Inr (False, [0, 0], st0) \<and>
      step st0 [0, 0] = Inr (c, x', st') \<and> m_w st' = 0 \<and>
      vec_add [0, 0] (smult (m_alpha st') (m_y st')) = Inr x' \<and> m_res st' = m_s st'"
    by blast
  have "\<exists>c x' st'. step probe_state [0, 0] = Inr (c, x', st') \<and>
      m_t st' = [1 / 3, - (2 / 3)] \<and> m_s st' = [1 / 3, - (1 / 3)]"
    by (auto simp add: solver_eval probe_state_def)
  then obtain c x' st' where
    s: "step probe_state [0, 0] = Inr (c, x', st')"
    and t: "m_t st' = [1 / 3, - (2 / 3)]" "m_s st' = [1 / 3, - (1 / 3)]"
    by blast
  from omega_guarded[of probe_state "[0, 0]" c x' st'] s t have "m_w st' = 3 / 5"
    by (simp add: dot_def)
  with s have 2: "\<exists>c x' st'. step probe_state [0, 0] = Inr (c, x', st') \<and> m_w st' = 3 / 5"
    by blast
  from 1 2 show ?thesis by blast
qed

text \<open>
  Claim C2, as amended.  In every step that returns, when \<open>|\<langle>r0,r\<rangle>|\<close> is below
  \<open>10\<^sup>-\<^sup>3\<^sup>2 \<langle>r0,r0\<rangle>\<close> the shadow residual is reset to the current residual and \<open>m_rho\<close> is
  recomputed as its squared norm, and otherwise both are as the inner product gives
  them.  The test reads nothing but the two residuals: the solver has no retry counter,
  and a step fails only at a division by zero or at operands that do not fit, never
  because of the restart.
\<close>

theorem restart_every_time:
  "(step st x = Inr (c, x', st') \<longrightarrow>
      (restart_of st \<longrightarrow> m_r0 st' = m_res st \<and> m_rho st' = dot (m_res st) (m_res st)) \<and>
      (\<not> restart_of st \<longrightarrow> m_r0 st' = m_r0 st \<and> m_rho st' = dot (m_r0 st) (m_res st))) \<and>
   (step st x = Inl e \<longrightarrow>
      e = DimensionMismatch \<or> e = DivisionByZero BetaRhoDiv \<or>
      e = DivisionByZero BetaOmegaDiv \<or> e = DivisionByZero AlphaDiv \<or>
      e = DivisionByZero ErrorDiv)"
proof (intro conjI impI)
  assume s: "step st x = Inr (c, x', st')" and r: "restart_of st"
  from step_fields[OF s] r show "m_r0 st' = m_res st" "m_rho st' = dot (m_res st) (m_res st)"
    by (simp_all add: r0_of_def rho_of_def)
next
  assume s: "step st x = Inr (c, x', st')" and r: "\<not> restart_of st"
  from step_fields[OF s] r show "m_r0 st' = m_r0 st" "m_rho st' = dot (m_r0 st) (m_res st)"
    by (simp_all add: r0_of_def rho_of_def)
next
  assume "step st x = Inl e"
  then show "e = DimensionMismatch \<or> e = DivisionByZero BetaRhoDiv \<or>
      e = DivisionByZero BetaOmegaDiv \<or> e = DivisionByZero AlphaDiv \<or>
      e = DivisionByZero ErrorDiv"
    by (rule step_errors)
qed

theorem restart_every_time_witness:
  "(\<exists>c x st c' x' st'.
      next_step (initIteration (new_solver mat3 (identityOp 3) (1 / 10 ^ 10)) [0, 0, 1] []) =
        Inr (c, x, st) \<and>
      restart_of st \<and> step st x = Inr (c', x', st') \<and>
      m_r0 st' = m_res st \<and> m_rho st' = dot (m_res st) (m_res st)) \<and>
   (\<exists>c x' st'. \<not> restart_of probe_state \<and> step probe_state [0, 0] = Inr (c, x', st') \<and>
      m_r0 st' = m_r0 probe_state \<and> m_rho st' = 2)"
proof -
  have "\<exists>c x st c' x' st'.
      next_step (initIteration (new_solver mat3 (identityOp 3) (1 / 10 ^ 10)) [0, 0, 1] []) =
        Inr (c, x, st) \<and>
      restart_of st \<and> step st x = Inr (c', x', st')"
    by (auto simp add: solver_eval)
  then obtain c x st c' x' st' where
    n: "next_step (initIteration (new_solver mat3 (identityOp 3) (1 / 10 ^ 10)) [0, 0, 1] []) =
        Inr (c, x, st)"
    and r: "restart_of st" and s: "step st x = Inr (c', x', st')"
    by blast
  from restart_every_time[of st x c' x' st'] r s
  have "m_r0 st' = m_res st \<and> m_rho st' = dot (m_res st) (m_res st)" by simp
  with n r s have 1: "\<exists>c x st c' x' st'.
      next_step (initIteration (new_solver mat3 (identityOp 3) (1 / 10 ^ 10)) [0, 0, 1] []) =
        Inr (c, x, st) \<and>
      restart_of st \<and> step st x = Inr (c', x', st') \<and>
      m_r0 st' = m_res st \<and> m_rho st' = dot (m_res st) (m_res st)"
    by blast
  have nr: "\<not> restart_of probe_state"
    by (simp add: probe_state_def restart_of_def dot_def)
  have "\<exists>c x' st'. step probe_state [0, 0] = Inr (c, x', st')"
    by (auto simp add: solver_eval probe_state_def)
  then obtain c x' st' where s: "step probe_state [0, 0] = Inr (c, x', st')" by blast
  from restart_every_time[of probe_state "[0, 0]" c x' st'] nr s
  have "m_r0 st' = m_r0 probe_state \<and> m_rho st' = 2"
    by (simp add: probe_state_def dot_def)
  with nr s have 2: "\<exists>c x' st'. \<not> restart_of probe_state \<and>
      step probe_state [0, 0] = Inr (c, x', st') \<and>
      m_r0 st' = m_r0 probe_state \<and> m_rho st' = 2"
    by blast
  from 1 2 show ?thesis by blast
qed

text \<open>
  The claim C2 as stated, a restart bounded by a retry counter that ends in a fatal
  failure, fails: in the run for the matrix \<open>mat3\<close> and the right-hand side
  \<open>[0, 0, 1]\<close> from the zero vector, the test for the restart does not hold before the first
  step, holds before the second and again before the third, every one of the three steps
  returns without convergence, and the solver carries on.
\<close>

theorem restart_twice_counterexample:
  "(case initIteration (new_solver mat3 (identityOp 3) (1 / 10 ^ 10)) [0, 0, 1] [] of
      Inr (c, x, st) \<Rightarrow> \<not> c \<and> \<not> restart_of st | Inl e \<Rightarrow> False) \<and>
   (case next_step (initIteration (new_solver mat3 (identityOp 3) (1 / 10 ^ 10)) [0, 0, 1] []) of
      Inr (c, x, st) \<Rightarrow> \<not> c \<and> restart_of st | Inl e \<Rightarrow> False) \<and>
   (case next_step (next_step
           (initIteration (new_solver mat3 (identityOp 3) (1 / 10 ^ 10)) [0, 0, 1] [])) of
      Inr (c, x, st) \<Rightarrow> \<not> c \<and> restart_of st | Inl e \<Rightarrow> False) \<and>
   (case next_step (next_step (next_step
           (initIteration (new_solver mat3 (identityOp 3) (1 / 10 ^ 10)) [0, 0, 1] []))) of
      Inr (c, x, st) \<Rightarrow> \<not> c | Inl e \<Rightarrow> False)"
  by (simp add: solver_eval)

text \<open>
  Claim C10.  The division that computes \<open>m_alpha\<close> has no guard: whenever a step
  returns, the denominator \<open>\<langle>r0,v\<rangle>\<close> was not zero, and there is a state that the solver
  reaches, the initial state for the exchange matrix and the right-hand side \<open>[1, 0]\<close>,
  in which the step performs this division with a zero denominator.
\<close>

theorem alpha_division_unguarded:
  "(step st x = Inr (c, x', st') \<longrightarrow>
      dot (m_r0 st') (m_v st') \<noteq> 0 \<and>
      m_alpha st' = m_rho st' / dot (m_r0 st') (m_v st')) \<and>
   (\<exists>st0. initIteration (new_solver exchange2 (identityOp 2) (1 / 10 ^ 10)) [1, 0] [] =
            Inr (False, [0, 0], st0) \<and>
          step st0 [0, 0] = Inl (DivisionByZero AlphaDiv))"
  using step_fields[of st x c x' st'] exchange_run by blast

theorem alpha_division_unguarded_witness:
  "\<exists>c x' st'. step probe_state [0, 0] = Inr (c, x', st') \<and>
      dot (m_r0 st') (m_v st') = 3 \<and> m_alpha st' = 2 / 3"
proof -
  have "\<exists>c x' st'. step probe_state [0, 0] = Inr (c, x', st') \<and>
      m_r0 st' = [1, 1] \<and> m_v st' = [1, 2] \<and> m_rho st' = 2"
    by (auto simp add: solver_eval probe_state_def)
  then obtain c x' st' where s: "step probe_state [0, 0] = Inr (c, x', st')"
    and v: "m_r0 st' = [1, 1]" "m_v st' = [1, 2]" "m_rho st' = 2"
    by blast
  from alpha_division_unguarded[of probe_state "[0, 0]" c x' st'] s v
  have "dot (m_r0 st') (m_v st') = 3 \<and> m_alpha st' = 2 / 3"
    by (simp add: dot_def)
  with s show ?thesis by blast
qed

section \<open>The Schur complement operator against the explicit Schur complement\<close>

lemma fill_from_spec:
  "distinct is \<Longrightarrow> \<forall>i\<in>set is. i < length rv \<Longrightarrow>
   length (fill_from rv is j) = length rv \<and>
   (\<forall>t<length (filter (\<lambda>i. rv ! i = 0) is).
      fill_from rv is j ! (filter (\<lambda>i. rv ! i = 0) is ! t) = j - 1 - int t) \<and>
   (\<forall>i<length rv. i \<notin> set (filter (\<lambda>i. rv ! i = 0) is) \<longrightarrow> fill_from rv is j ! i = rv ! i)"
proof (induction "is" arbitrary: rv j)
  case Nil
  show ?case by simp
next
  case (Cons a "is")
  from Cons.prems have a: "a < length rv" and na: "a \<notin> set is" and d: "distinct is"
    and r: "\<forall>i\<in>set is. i < length rv"
    by auto
  show ?case
  proof (cases "rv ! a = 0")
    case False
    with Cons.IH[OF d r, of j] show ?thesis by simp
  next
    case True
    let ?rv = "rv[a := j - 1]"
    let ?zs = "filter (\<lambda>i. rv ! i = 0) is"
    have same: "filter (\<lambda>i. ?rv ! i = 0) is = ?zs"
    proof (intro filter_cong refl)
      fix x assume "x \<in> set is"
      with na have "x \<noteq> a" by auto
      then show "(?rv ! x = 0) = (rv ! x = 0)" by simp
    qed
    have r': "\<forall>i\<in>set is. i < length ?rv" using r by simp
    from Cons.IH[OF d r', of "j - 1"] same
    have len: "length (fill_from ?rv is (j - 1)) = length rv"
      and hit: "\<forall>t<length ?zs. fill_from ?rv is (j - 1) ! (?zs ! t) = j - 1 - 1 - int t"
      and miss: "\<forall>i<length rv. i \<notin> set ?zs \<longrightarrow> fill_from ?rv is (j - 1) ! i = ?rv ! i"
      by simp_all
    have f: "fill_from rv (a # is) j = fill_from ?rv is (j - 1)" using True by simp
    have z: "filter (\<lambda>i. rv ! i = 0) (a # is) = a # ?zs" using True by simp
    have at_a: "fill_from ?rv is (j - 1) ! a = j - 1"
      using miss a na by simp
    have 2: "\<forall>t<length (a # ?zs). fill_from ?rv is (j - 1) ! ((a # ?zs) ! t) = j - 1 - int t"
    proof (intro allI impI)
      fix t assume t: "t < length (a # ?zs)"
      show "fill_from ?rv is (j - 1) ! ((a # ?zs) ! t) = j - 1 - int t"
      proof (cases t)
        case 0
        then show ?thesis using at_a by simp
      next
        case (Suc t')
        then show ?thesis using hit t by simp
      qed
    qed
    have 3: "\<forall>i<length rv. i \<notin> set (a # ?zs) \<longrightarrow> fill_from ?rv is (j - 1) ! i = rv ! i"
      using miss by auto
    show ?thesis unfolding f z using len 2 3 by blast
  qed
qed

text \<open>What the two loops leave in \<open>reverse\<close>.\<close>

definition reverse_ok :: "int list \<Rightarrow> nat list \<Rightarrow> nat \<Rightarrow> bool" where
  "reverse_ok rv dofs n \<longleftrightarrow>
     length rv = n \<and> distinct dofs \<and> (\<forall>d\<in>set dofs. d < n) \<and>
     (\<forall>i<length dofs. rv ! (dofs ! i) = int i + 1) \<and>
     (\<forall>t<length (eliminated dofs n). rv ! (eliminated dofs n ! t) = - int t - 1)"

lemma reverse_spec:
  assumes dist: "distinct dofs" and rng: "\<forall>d\<in>set dofs. d < n"
  shows "\<exists>rev0. set_reverse (replicate n 0) dofs 0 = Inr rev0 \<and>
           reverse_ok (fill_negative rev0) dofs n"
proof -
  from reverse_of_dofs[OF dist rng] obtain rev0 where
    rv: "set_reverse (replicate n 0) dofs 0 = Inr rev0"
    and len: "length rev0 = n"
    and hit: "\<forall>j<length dofs. rev0 ! (dofs ! j) = int j + 1"
    and miss: "\<forall>c<n. c \<notin> set dofs \<longrightarrow> rev0 ! c = 0"
    by blast
  have zero_iff: "rev0 ! i = 0 \<longleftrightarrow> i \<notin> set dofs" if "i < n" for i
  proof (cases "i \<in> set dofs")
    case True
    then obtain j where "j < length dofs" "dofs ! j = i" by (auto simp: in_set_conv_nth)
    with hit True show ?thesis by auto
  next
    case False
    with miss that show ?thesis by simp
  qed
  have zs: "filter (\<lambda>i. rev0 ! i = 0) [0..<length rev0] = eliminated dofs n"
    unfolding eliminated_def len using zero_iff by (intro filter_cong) auto
  from fill_from_spec[of "[0..<length rev0]" rev0 0]
  have l: "length (fill_negative rev0) = n"
    and h: "\<forall>t<length (eliminated dofs n).
              fill_negative rev0 ! (eliminated dofs n ! t) = - int t - 1"
    and m: "\<forall>i<n. i \<notin> set (eliminated dofs n) \<longrightarrow> fill_negative rev0 ! i = rev0 ! i"
    unfolding fill_negative_def zs using len by simp_all
  have k: "\<forall>i<length dofs. fill_negative rev0 ! (dofs ! i) = int i + 1"
  proof (intro allI impI)
    fix i assume i: "i < length dofs"
    then have "dofs ! i \<in> set dofs" by simp
    then have "dofs ! i < n" "dofs ! i \<notin> set (eliminated dofs n)"
      using rng by (auto simp: eliminated_def)
    with m hit i show "fill_negative rev0 ! (dofs ! i) = int i + 1" by simp
  qed
  show ?thesis using rv l h k dist rng by (auto simp: reverse_ok_def)
qed

text \<open>The two parts of the indices, the sign that marks each in \<open>reverse\<close>, the position.\<close>

definition part :: "nat list \<Rightarrow> nat \<Rightarrow> bool \<Rightarrow> nat list" where
  "part dofs n s = (if s then dofs else eliminated dofs n)"

definition in_part :: "bool \<Rightarrow> int \<Rightarrow> bool" where
  "in_part s v = (if s then v > 0 else v < 0)"

definition idx :: "int \<Rightarrow> nat" where
  "idx v = nat (\<bar>v\<bar> - 1)"

lemma part_hit:
  assumes "reverse_ok rv dofs n" "i < length (part dofs n s)"
  shows "in_part s (rv ! (part dofs n s ! i)) \<and> idx (rv ! (part dofs n s ! i)) = i \<and>
         part dofs n s ! i < n"
proof (cases s)
  case True
  with assms show ?thesis
    by (auto simp: reverse_ok_def part_def in_part_def idx_def)
next
  case False
  with assms have i: "i < length (eliminated dofs n)" by (simp add: part_def)
  then have "eliminated dofs n ! i \<in> set (eliminated dofs n)" by simp
  then have "eliminated dofs n ! i < n" by (simp add: eliminated_def)
  with assms(1) i False show ?thesis
    by (auto simp: reverse_ok_def part_def in_part_def idx_def)
qed

lemma part_cover:
  assumes ok: "reverse_ok rv dofs n" and a: "a < n" and s: "in_part s (rv ! a)"
  shows "\<exists>i<length (part dofs n s). a = part dofs n s ! i"
proof (cases "a \<in> set dofs")
  case True
  then obtain i where i: "i < length dofs" "dofs ! i = a" by (auto simp: in_set_conv_nth)
  with ok have "rv ! a = int i + 1" by (auto simp: reverse_ok_def)
  with s have "s" by (auto simp: in_part_def split: if_splits)
  with i show ?thesis by (auto simp: part_def)
next
  case False
  with a have "a \<in> set (eliminated dofs n)" by (simp add: eliminated_def)
  then obtain t where t: "t < length (eliminated dofs n)" "eliminated dofs n ! t = a"
    by (auto simp: in_set_conv_nth)
  with ok have "rv ! a = - int t - 1" by (auto simp: reverse_ok_def)
  with s have "\<not> s" by (auto simp: in_part_def split: if_splits)
  with t show ?thesis by (auto simp: part_def)
qed

lemma part_iff:
  assumes ok: "reverse_ok rv dofs n" and a: "a < n" and i: "i < length (part dofs n s)"
  shows "in_part s (rv ! a) \<and> idx (rv ! a) = i \<longleftrightarrow> a = part dofs n s ! i"
proof
  assume h: "in_part s (rv ! a) \<and> idx (rv ! a) = i"
  with part_cover[OF ok a, of s] obtain i' where
    i': "i' < length (part dofs n s)" "a = part dofs n s ! i'"
    by blast
  with part_hit[OF ok i'(1)] h show "a = part dofs n s ! i" by simp
next
  assume "a = part dofs n s ! i"
  with part_hit[OF ok i] show "in_part s (rv ! a) \<and> idx (rv ! a) = i" by simp
qed

lemma reverse_nonzero:
  assumes ok: "reverse_ok rv dofs n" and a: "a < n"
  shows "rv ! a \<noteq> 0"
proof (cases "a \<in> set dofs")
  case True
  then obtain i where i: "i < length dofs" "dofs ! i = a" by (auto simp: in_set_conv_nth)
  with ok have "rv ! a = int i + 1" by (auto simp: reverse_ok_def)
  then show ?thesis by simp
next
  case False
  with a have "a \<in> set (eliminated dofs n)" by (simp add: eliminated_def)
  then obtain t where t: "t < length (eliminated dofs n)" "eliminated dofs n ! t = a"
    by (auto simp: in_set_conv_nth)
  with ok have "rv ! a = - int t - 1" by (auto simp: reverse_ok_def)
  then show ?thesis by simp
qed

lemma length_parts:
  assumes "distinct dofs" "\<forall>d\<in>set dofs. d < n"
  shows "length dofs + length (eliminated dofs n) = n"
proof -
  have "length (filter (\<lambda>i. i \<in> set dofs) [0..<n]) = length dofs"
  proof -
    have "set (filter (\<lambda>i. i \<in> set dofs) [0..<n]) = set dofs" using assms by auto
    moreover have "distinct (filter (\<lambda>i. i \<in> set dofs) [0..<n])" by simp
    ultimately show ?thesis using assms(1) by (metis distinct_card)
  qed
  moreover have "length (filter (\<lambda>i. i \<in> set dofs) [0..<n]) +
      length (filter (\<lambda>i. i \<notin> set dofs) [0..<n]) = length [0..<n]"
    by (rule sum_length_filter_compl)
  ultimately show ?thesis by (simp add: eliminated_def)
qed

text \<open>The triplets of one block in closed form.\<close>

definition block_triplets :: "int list \<Rightarrow> bool \<Rightarrow> bool \<Rightarrow> real \<Rightarrow> triplet list \<Rightarrow> triplet list" where
  "block_triplets rv sr sc sg es =
     map (\<lambda>e. (idx (rv ! t_row e), idx (rv ! t_col e), sg * t_val e))
       (filter (\<lambda>e. in_part sr (rv ! t_row e) \<and> in_part sc (rv ! t_col e)) es)"

lemma sort_entries_closed:
  assumes "\<forall>e\<in>set es. t_row e < length rv \<and> t_col e < length rv"
    and "\<forall>a<length rv. rv ! a \<noteq> 0"
  shows "sort_entries rv es =
     Inr (block_triplets rv True True 1 es, block_triplets rv False True 1 es,
          block_triplets rv True False 1 es, block_triplets rv False False (- 1) es)"
  using assms(1)
proof (induction es)
  case Nil
  show ?case by (simp add: block_triplets_def)
next
  case (Cons e es)
  then have ih: "sort_entries rv es =
     Inr (block_triplets rv True True 1 es, block_triplets rv False True 1 es,
          block_triplets rv True False 1 es, block_triplets rv False False (- 1) es)"
    and r: "t_row e < length rv" and c: "t_col e < length rv"
    by simp_all
  from assms(2) r c have nz: "rv ! t_row e \<noteq> 0" "rv ! t_col e \<noteq> 0" by simp_all
  have pos: "nat (v - 1) = idx v" if "v > 0" for v using that by (simp add: idx_def)
  have neg: "nat (- v - 1) = idx v" if "v < 0" for v using that by (simp add: idx_def)
  have sym: "idx (- v) = idx v" for v by (simp add: idx_def)
  consider "rv ! t_row e > 0" "rv ! t_col e > 0" | "rv ! t_row e > 0" "rv ! t_col e < 0"
    | "rv ! t_row e < 0" "rv ! t_col e > 0" | "rv ! t_row e < 0" "rv ! t_col e < 0"
    using nz by linarith
  then show ?case
  proof cases
    case 1
    then show ?thesis using r c ih by (simp add: block_triplets_def in_part_def pos)
  next
    case 2
    then show ?thesis using r c ih by (simp add: block_triplets_def in_part_def pos neg sym)
  next
    case 3
    then show ?thesis using r c ih by (simp add: block_triplets_def in_part_def pos neg sym)
  next
    case 4
    then show ?thesis using r c ih by (simp add: block_triplets_def in_part_def neg sym)
  qed
qed

text \<open>The sum of the values of a list of triplets at a position.\<close>

definition entry_of :: "triplet list \<Rightarrow> nat \<times> nat \<Rightarrow> real" where
  "entry_of es p = (\<Sum>e\<leftarrow>filter (\<lambda>e. t_pos e = p) es. t_val e)"

lemma entry_of_Nil: "entry_of [] p = 0"
  by (simp add: entry_of_def)

lemma entry_of_Cons:
  "entry_of (e # es) p = (if t_pos e = p then t_val e else 0) + entry_of es p"
  by (simp add: entry_of_def)

lemma entry_of_add_entry:
  "entry_of (add_entry earlier t es) p = entry_of es p + (if t_pos t = p then t_val t else 0)"
proof (induction es)
  case Nil
  show ?case by (simp add: entry_of_def)
next
  case (Cons e es)
  show ?case
  proof (cases "t_pos e = t_pos t")
    case True
    have "t_pos (t_row e, t_col e, t_val e + t_val t) = t_pos e"
      by (simp add: t_pos_def t_row_def t_col_def)
    moreover have "t_val (t_row e, t_col e, t_val e + t_val t) = t_val e + t_val t"
      by (simp add: t_val_def)
    ultimately show ?thesis using True by (simp add: entry_of_Cons)
  next
    case False
    then show ?thesis using Cons by (simp add: entry_of_Cons)
  qed
qed

lemma entry_of_foldl:
  "entry_of (foldl (\<lambda>es t. add_entry earlier t es) acc ts) p = entry_of acc p + entry_of ts p"
  by (induction ts arbitrary: acc) (simp_all add: entry_of_add_entry entry_of_Cons entry_of_Nil)

lemma entry_setFrom: "entry (setFrom earlier r c ts) i j = entry_of ts (i, j)"
  using entry_of_foldl[of earlier "[]" ts "(i, j)"]
  by (simp add: entry_def setFrom_def entry_of_def)

lemma pos_add_entry:
  "t_pos ` set (add_entry earlier t es) = insert (t_pos t) (t_pos ` set es)"
  by (induction es) (auto simp: t_pos_def t_row_def t_col_def)

lemma pos_foldl:
  "t_pos ` set (foldl (\<lambda>es t. add_entry earlier t es) acc ts) =
     t_pos ` set acc \<union> t_pos ` set ts"
  by (induction ts arbitrary: acc) (auto simp: pos_add_entry)

lemma pattern_setFrom: "pattern (setFrom earlier r c ts) = t_pos ` set ts"
  using pos_foldl[of earlier "[]" ts] by (simp add: pattern_def setFrom_def)

lemma block_triplets_entry:
  assumes ok: "reverse_ok rv dofs n"
    and inside: "\<forall>e\<in>set es. t_row e < n \<and> t_col e < n"
    and i: "i < length (part dofs n sr)" and j: "j < length (part dofs n sc)"
  shows "entry_of (block_triplets rv sr sc sg es) (i, j) =
           sg * entry_of es (part dofs n sr ! i, part dofs n sc ! j)"
  using inside
proof (induction es)
  case Nil
  show ?case by (simp add: block_triplets_def entry_of_def)
next
  case (Cons e es)
  then have r: "t_row e < n" and c: "t_col e < n"
    and ih: "entry_of (block_triplets rv sr sc sg es) (i, j) =
           sg * entry_of es (part dofs n sr ! i, part dofs n sc ! j)"
    by simp_all
  have iff: "in_part sr (rv ! t_row e) \<and> in_part sc (rv ! t_col e) \<and>
        idx (rv ! t_row e) = i \<and> idx (rv ! t_col e) = j \<longleftrightarrow>
      t_pos e = (part dofs n sr ! i, part dofs n sc ! j)"
    using part_iff[OF ok r i] part_iff[OF ok c j] by (auto simp: t_pos_def)
  let ?new = "(idx (rv ! t_row e), idx (rv ! t_col e), sg * t_val e)"
  have np: "t_pos ?new = (idx (rv ! t_row e), idx (rv ! t_col e))" and nv: "t_val ?new = sg * t_val e"
    by (simp_all add: t_pos_def t_row_def t_col_def t_val_def)
  show ?case
  proof (cases "in_part sr (rv ! t_row e) \<and> in_part sc (rv ! t_col e)")
    case True
    then have b: "block_triplets rv sr sc sg (e # es) = ?new # block_triplets rv sr sc sg es"
      by (simp add: block_triplets_def)
    show ?thesis
      unfolding b entry_of_Cons[of ?new] entry_of_Cons[of e] np nv ih
      using iff True by (auto simp: algebra_simps)
  next
    case False
    then have b: "block_triplets rv sr sc sg (e # es) = block_triplets rv sr sc sg es"
      by (simp add: block_triplets_def)
    from False iff have "t_pos e \<noteq> (part dofs n sr ! i, part dofs n sc ! j)" by blast
    then show ?thesis unfolding b entry_of_Cons[of e] ih by simp
  qed
qed

lemma block_triplets_range:
  assumes ok: "reverse_ok rv dofs n"
    and inside: "\<forall>e\<in>set es. t_row e < n \<and> t_col e < n"
    and x: "x \<in> set (block_triplets rv sr sc sg es)"
  shows "t_row x < length (part dofs n sr) \<and> t_col x < length (part dofs n sc)"
proof -
  from x obtain e where e: "e \<in> set es" "in_part sr (rv ! t_row e)" "in_part sc (rv ! t_col e)"
    "x = (idx (rv ! t_row e), idx (rv ! t_col e), sg * t_val e)"
    by (auto simp: block_triplets_def)
  with inside have r: "t_row e < n" and c: "t_col e < n" by auto
  from part_cover[OF ok r e(2)] obtain i where
    i: "i < length (part dofs n sr)" "t_row e = part dofs n sr ! i" by blast
  from part_cover[OF ok c e(3)] obtain j where
    j: "j < length (part dofs n sc)" "t_col e = part dofs n sc ! j" by blast
  from part_hit[OF ok i(1)] i(2) have "idx (rv ! t_row e) = i" by simp
  moreover from part_hit[OF ok j(1)] j(2) have "idx (rv ! t_col e) = j" by simp
  ultimately show ?thesis using e(4) i j by (simp add: t_row_def t_col_def)
qed

lemma row_sum_dense:
  assumes "\<forall>e\<in>set es. t_col e < c"
  shows "(\<Sum>e\<leftarrow>filter (\<lambda>e. t_row e = i) es. t_val e * x ! t_col e) =
         (\<Sum>j<c. entry_of es (i, j) * x ! j)"
  using assms
proof (induction es)
  case Nil
  show ?case by (simp add: entry_of_def)
next
  case (Cons e es)
  then have c: "t_col e < c"
    and ih: "(\<Sum>e\<leftarrow>filter (\<lambda>e. t_row e = i) es. t_val e * x ! t_col e) =
         (\<Sum>j<c. entry_of es (i, j) * x ! j)"
    by simp_all
  have split: "(\<Sum>j<c. entry_of (e # es) (i, j) * x ! j) =
      (\<Sum>j<c. (if t_pos e = (i, j) then t_val e else 0) * x ! j) +
      (\<Sum>j<c. entry_of es (i, j) * x ! j)"
    by (simp add: entry_of_Cons algebra_simps sum.distrib)
  have delta: "(\<Sum>j<c. (if t_pos e = (i, j) then t_val e else 0) * x ! j) =
      (if t_row e = i then t_val e * x ! t_col e else 0)"
  proof (cases "t_row e = i")
    case True
    have "(\<Sum>j<c. (if t_pos e = (i, j) then t_val e else 0) * x ! j) =
        (\<Sum>j\<in>{..<c}. if j = t_col e then t_val e * x ! j else 0)"
      using True by (intro sum.cong) (auto simp: t_pos_def)
    also have "\<dots> = t_val e * x ! t_col e"
      using c by (simp add: sum.delta)
    finally show ?thesis using True by simp
  next
    case False
    then show ?thesis by (simp add: t_pos_def)
  qed
  show ?case unfolding split delta using ih by simp
qed

lemma mult_vec_dense:
  assumes "\<forall>e\<in>set (stored A). t_col e < cols A" "length x = cols A"
  shows "mult_vec A x = Inr (dense_mult (entry A) (rows A) (cols A) x)"
proof -
  have "(\<Sum>e\<leftarrow>filter (\<lambda>e. t_row e = i) (stored A). t_val e * x ! t_col e) =
        (\<Sum>j<cols A. entry A i j * x ! j)" for i
    using row_sum_dense[OF assms(1), where i=i and x=x] by (simp add: entry_def entry_of_def)
  then show ?thesis using assms(2) by (simp add: mult_vec_def dense_mult_def)
qed

lemma dense_mult_cong:
  "(\<And>i j. i < r \<Longrightarrow> j < c \<Longrightarrow> a i j = b i j) \<Longrightarrow> dense_mult a r c x = dense_mult b r c x"
  by (simp add: dense_mult_def)

lemma length_dense_mult: "length (dense_mult a r c x) = r"
  by (simp add: dense_mult_def)

lemma dense_mult_neg_vec:
  "length z = c \<Longrightarrow> dense_mult a r c (map uminus z) = map uminus (dense_mult a r c z)"
  by (simp add: dense_mult_def sum_negf)

lemma dense_mult_neg_mat:
  "dense_mult (\<lambda>i j. - a i j) r c z = map uminus (dense_mult a r c z)"
  by (simp add: dense_mult_def sum_negf)

lemma map2_add_uminus:
  "length u = length w \<Longrightarrow> map2 (+) u (map uminus w) = map2 (-) (u :: real list) w"
  by (induction u w rule: list_induct2) simp_all

lemma map_uminus_twice: "map uminus (map uminus (z :: real list)) = z"
  by (induction z) simp_all

lemma schurBlocks_spec:
  assumes wf: "wf_matrix M" and sq: "rows M = n" "cols M = n" and pos: "0 < n"
    and dist: "distinct dofs" and rng: "\<forall>d\<in>set dofs. d < n"
  shows "\<exists>A00 A10 A01 A11. schurBlocks M dofs = Inr (A00, A10, A01, A11) \<and>
     rows A00 = length dofs \<and> cols A00 = length dofs \<and>
     rows A10 = n - length dofs \<and> cols A10 = length dofs \<and>
     rows A01 = length dofs \<and> cols A01 = n - length dofs \<and>
     rows A11 = n - length dofs \<and> cols A11 = n - length dofs \<and>
     (\<forall>e\<in>set (stored A00). t_col e < cols A00) \<and>
     (\<forall>e\<in>set (stored A10). t_col e < cols A10) \<and>
     (\<forall>e\<in>set (stored A01). t_col e < cols A01) \<and>
     (\<forall>e\<in>set (stored A11). t_col e < cols A11) \<and>
     (\<forall>e\<in>set (stored A11). t_row e < rows A11) \<and>
     (\<forall>i<length dofs. \<forall>j<length dofs. entry A00 i j = block M dofs dofs i j) \<and>
     (\<forall>i<n - length dofs. \<forall>j<length dofs.
        entry A10 i j = block M (eliminated dofs n) dofs i j) \<and>
     (\<forall>i<length dofs. \<forall>j<n - length dofs.
        entry A01 i j = block M dofs (eliminated dofs n) i j) \<and>
     (\<forall>i<n - length dofs. \<forall>j<n - length dofs.
        entry A11 i j = - block M (eliminated dofs n) (eliminated dofs n) i j)"
proof -
  let ?m = "length dofs" and ?k = "n - length dofs" and ?es = "stored M"
  from reverse_spec[OF dist rng] obtain rev0 where
    r0: "set_reverse (replicate n 0) dofs 0 = Inr rev0"
    and ok: "reverse_ok (fill_negative rev0) dofs n"
    by blast
  let ?rv = "fill_negative rev0"
  have len: "length ?rv = n" using ok by (simp add: reverse_ok_def)
  have inside: "\<forall>e\<in>set ?es. t_row e < n \<and> t_col e < n"
    using wf sq by (simp add: wf_matrix_def list_all_iff)
  have nz: "\<forall>a<length ?rv. ?rv ! a \<noteq> 0"
    using reverse_nonzero[OF ok] len by simp
  have se: "sort_entries ?rv ?es =
     Inr (block_triplets ?rv True True 1 ?es, block_triplets ?rv False True 1 ?es,
          block_triplets ?rv True False 1 ?es, block_triplets ?rv False False (- 1) ?es)"
    using sort_entries_closed[OF _ nz] inside len by simp
  have lp: "?m + length (eliminated dofs n) = n" by (rule length_parts[OF dist rng])
  then have lk: "length (eliminated dofs n) = ?k" and mn: "?m \<le> rows M" using sq by simp_all
  have pl: "length (part dofs n True) = ?m" "length (part dofs n False) = ?k"
    using lk by (simp_all add: part_def)
  have pp: "part dofs n True = dofs" "part dofs n False = eliminated dofs n"
    by (simp_all add: part_def)
  let ?B = "\<lambda>sr sc sg. setFrom col_major (length (part dofs n sr)) (length (part dofs n sc))
                (block_triplets ?rv sr sc sg ?es)"
  have run: "schurBlocks M dofs = Inr (?B True True 1, ?B False True 1, ?B True False 1,
      ?B False False (- 1))"
    using r0 se mn sq pl pos by (simp add: schurBlocks_def reserve_size_def)
  have dims: "rows (?B sr sc sg) = length (part dofs n sr)"
    "cols (?B sr sc sg) = length (part dofs n sc)" for sr sc sg
    by (simp_all add: setFrom_def)
  have cols_ok: "\<forall>e\<in>set (stored (?B sr sc sg)). t_col e < cols (?B sr sc sg)" for sr sc sg
  proof
    fix e assume "e \<in> set (stored (?B sr sc sg))"
    then have "t_pos e \<in> pattern (?B sr sc sg)" by (simp add: pattern_def)
    then have "t_pos e \<in> t_pos ` set (block_triplets ?rv sr sc sg ?es)"
      by (simp add: pattern_setFrom)
    then obtain x where x: "x \<in> set (block_triplets ?rv sr sc sg ?es)" "t_pos e = t_pos x"
      by auto
    from block_triplets_range[OF ok inside x(1)] x(2)
    show "t_col e < cols (?B sr sc sg)" by (simp add: dims t_pos_def)
  qed
  have rows_ok: "\<forall>e\<in>set (stored (?B sr sc sg)). t_row e < rows (?B sr sc sg)" for sr sc sg
  proof
    fix e assume "e \<in> set (stored (?B sr sc sg))"
    then have "t_pos e \<in> pattern (?B sr sc sg)" by (simp add: pattern_def)
    then have "t_pos e \<in> t_pos ` set (block_triplets ?rv sr sc sg ?es)"
      by (simp add: pattern_setFrom)
    then obtain x where x: "x \<in> set (block_triplets ?rv sr sc sg ?es)" "t_pos e = t_pos x"
      by auto
    from block_triplets_range[OF ok inside x(1)] x(2)
    show "t_row e < rows (?B sr sc sg)" by (simp add: dims t_pos_def)
  qed
  have ent: "entry (?B sr sc sg) i j = sg * block M (part dofs n sr) (part dofs n sc) i j"
    if "i < length (part dofs n sr)" "j < length (part dofs n sc)" for sr sc sg i j
  proof -
    have "entry (?B sr sc sg) i j = entry_of (block_triplets ?rv sr sc sg ?es) (i, j)"
      by (rule entry_setFrom)
    also have "\<dots> = sg * entry_of ?es (part dofs n sr ! i, part dofs n sc ! j)"
      by (rule block_triplets_entry[OF ok inside that])
    also have "entry_of ?es (part dofs n sr ! i, part dofs n sc ! j) =
        block M (part dofs n sr) (part dofs n sc) i j"
      by (simp add: block_def entry_def entry_of_def)
    finally show ?thesis .
  qed
  show ?thesis
    apply (intro exI conjI)
                    apply (rule run)
    using dims[of True True 1] dims[of False True 1] dims[of True False 1]
      dims[of False False "- 1"] pl
                   apply simp_all[8]
    using cols_ok apply (blast, blast, blast, blast)
    using rows_ok apply blast
    using ent[of _ True _ True 1] ent[of _ False _ True 1] ent[of _ True _ False 1]
      ent[of _ False _ False "- 1"] pl pp
    apply simp_all
    done
qed

text \<open>
  The example of the specification, the matrix with the rows \<open>[2, 1]\<close> and \<open>[1, 2]\<close>,
  the diagonal matrix with the coefficients 1 and 2, and a solver for matrices of
  dimension one and zero: it divides the right-hand side by the coefficient of the
  matrix that it is given.
\<close>

definition example_matrix :: gsSparseMatrix where
  "example_matrix = \<lparr>rows = 2, cols = 2, stored = [(0, 0, 2), (1, 0, 1), (0, 1, 1), (1, 1, 2)]\<rparr>"

definition example_diagonal :: gsSparseMatrix where
  "example_diagonal = \<lparr>rows = 2, cols = 2, stored = [(0, 0, 1), (1, 1, 2)]\<rparr>"

definition example_solver :: "gsSparseMatrix \<Rightarrow> gsLinearOperator" where
  "example_solver A = SolverOp (rows A) (map (\<lambda>v. v / entry A 0 0))"

lemma example_wf: "wf_matrix example_matrix"
  by (simp add: example_matrix_def wf_matrix_def t_pos_def t_row_def t_col_def)

lemma example_eliminated: "eliminated [0] 2 = [1]" "eliminated [0, 1] 2 = []"
  by (simp_all add: eliminated_def numeral_2_eq_2)

lemma example_entries:
  "entry example_matrix 0 0 = 2" "entry example_matrix (Suc 0) 0 = 1"
  "entry example_matrix 0 (Suc 0) = 1" "entry example_matrix (Suc 0) (Suc 0) = 2"
  by (simp_all add: entry_def example_matrix_def t_pos_def t_row_def t_col_def t_val_def)

lemma example_solver_one:
  assumes "a 0 0 \<noteq> 0"
  shows "realises_inverse example_solver a (Suc 0)"
  unfolding realises_inverse_def
proof (intro allI impI)
  fix A and b :: "real list"
  assume h: "represents A a (Suc 0) \<and> length b = Suc 0"
  then obtain b0 where b: "b = [b0]" by (auto simp: length_Suc_conv)
  from h have d: "rows A = Suc 0" "cols A = Suc 0"
    and c: "\<forall>e\<in>set (stored A). t_col e < cols A"
    and e: "entry A 0 0 = a 0 0"
    by (auto simp: represents_def)
  let ?y = "[b0 / entry A 0 0]"
  have 1: "apply_op (example_solver A) b = Inr ?y"
    by (simp add: example_solver_def d b)
  have "mult_vec A ?y = Inr (dense_mult (entry A) (rows A) (cols A) ?y)"
    using c by (rule mult_vec_dense) (simp add: d)
  also have "dense_mult (entry A) (rows A) (cols A) ?y = b"
    using assms e by (simp add: dense_mult_def d b)
  finally have 2: "mult_vec A ?y = Inr b" .
  show "\<exists>y. apply_op (example_solver A) b = Inr y \<and> length y = Suc 0 \<and> mult_vec A y = Inr b"
    using 1 2 by (intro exI[of _ ?y]) simp
qed

lemma example_solver_none: "realises_inverse example_solver a 0"
  by (auto simp: realises_inverse_def represents_def example_solver_def mult_vec_def)

text \<open>
  Claim C3, as amended.  Let \<open>M\<close> be a well-formed square matrix of dimension \<open>n > 0\<close>,
  \<open>dofs\<close> a duplicate-free list of its indices, \<open>solver\<close> a solver that realises the
  inverse of every matrix that represents the interior block with the opposite sign, and
  let the interior block \<open>A11\<close> be nonsingular.  Then \<open>schurComplement\<close> returns an
  operator, and for every vector \<open>x\<close> on the kept dofs it yields \<open>A00 x - A01 z\<close>, where
  \<open>z\<close> is the solution of \<open>A11 z = A10 x\<close>, that is \<open>(A00 - A01 A11\<^sup>-\<^sup>1 A10) x\<close>, with the
  blocks of the explicit Schur complement taken in the order of \<open>dofs\<close>.  When \<open>dofs\<close>
  lists the full index set in increasing order, \<open>0, \<dots>, n-1\<close>, the operator yields
  \<open>M x\<close>.
\<close>

theorem schurComplement_explicit:
  assumes wf: "wf_matrix M" and sq: "rows M = n" "cols M = n" and pos: "0 < n"
    and dist: "distinct dofs" and rng: "\<forall>d\<in>set dofs. d < n"
    and x: "length x = length dofs"
    and solver: "realises_inverse solver
        (\<lambda>i j. - block M (eliminated dofs n) (eliminated dofs n) i j) (n - length dofs)"
    and nonsingular: "\<forall>u w. length u = n - length dofs \<and> length w = n - length dofs \<and>
        dense_mult (block M (eliminated dofs n) (eliminated dofs n))
          (n - length dofs) (n - length dofs) u =
        dense_mult (block M (eliminated dofs n) (eliminated dofs n))
          (n - length dofs) (n - length dofs) w \<longrightarrow> u = w"
    and z: "length z = n - length dofs"
      "dense_mult (block M (eliminated dofs n) (eliminated dofs n))
          (n - length dofs) (n - length dofs) z =
       dense_mult (block M (eliminated dofs n) dofs) (n - length dofs) (length dofs) x"
  shows "\<exists>S. schurComplement solver M dofs = Inr S \<and>
           apply_op S x =
             Inr (map2 (-) (dense_mult (block M dofs dofs) (length dofs) (length dofs) x)
                    (dense_mult (block M dofs (eliminated dofs n)) (length dofs)
                       (n - length dofs) z)) \<and>
           (dofs = [0..<n] \<longrightarrow> apply_op S x = mult_vec M x)"
proof -
  let ?m = "length dofs" and ?k = "n - length dofs" and ?el = "eliminated dofs n"
  from schurBlocks_spec[OF wf sq pos dist rng] obtain A00 A10 A01 A11 where
    all: "schurBlocks M dofs = Inr (A00, A10, A01, A11) \<and>
     rows A00 = length dofs \<and> cols A00 = length dofs \<and>
     rows A10 = n - length dofs \<and> cols A10 = length dofs \<and>
     rows A01 = length dofs \<and> cols A01 = n - length dofs \<and>
     rows A11 = n - length dofs \<and> cols A11 = n - length dofs \<and>
     (\<forall>e\<in>set (stored A00). t_col e < cols A00) \<and>
     (\<forall>e\<in>set (stored A10). t_col e < cols A10) \<and>
     (\<forall>e\<in>set (stored A01). t_col e < cols A01) \<and>
     (\<forall>e\<in>set (stored A11). t_col e < cols A11) \<and>
     (\<forall>e\<in>set (stored A11). t_row e < rows A11) \<and>
     (\<forall>i<length dofs. \<forall>j<length dofs. entry A00 i j = block M dofs dofs i j) \<and>
     (\<forall>i<n - length dofs. \<forall>j<length dofs.
        entry A10 i j = block M (eliminated dofs n) dofs i j) \<and>
     (\<forall>i<length dofs. \<forall>j<n - length dofs.
        entry A01 i j = block M dofs (eliminated dofs n) i j) \<and>
     (\<forall>i<n - length dofs. \<forall>j<n - length dofs.
        entry A11 i j = - block M (eliminated dofs n) (eliminated dofs n) i j)"
    by (elim exE) (rule that)
  from all have blocks: "schurBlocks M dofs = Inr (A00, A10, A01, A11)"
    and d00: "rows A00 = ?m" "cols A00 = ?m" and d10: "rows A10 = ?k" "cols A10 = ?m"
    and d01: "rows A01 = ?m" "cols A01 = ?k" and d11: "rows A11 = ?k" "cols A11 = ?k"
    and c00: "\<forall>e\<in>set (stored A00). t_col e < cols A00"
    and c10: "\<forall>e\<in>set (stored A10). t_col e < cols A10"
    and c01: "\<forall>e\<in>set (stored A01). t_col e < cols A01"
    and c11: "\<forall>e\<in>set (stored A11). t_col e < cols A11"
    and r11: "\<forall>e\<in>set (stored A11). t_row e < rows A11"
    and e00: "\<forall>i<?m. \<forall>j<?m. entry A00 i j = block M dofs dofs i j"
    and e10: "\<forall>i<?k. \<forall>j<?m. entry A10 i j = block M ?el dofs i j"
    and e01: "\<forall>i<?m. \<forall>j<?k. entry A01 i j = block M dofs ?el i j"
    and e11: "\<forall>i<?k. \<forall>j<?k. entry A11 i j = - block M ?el ?el i j"
    by - ((elim conjE, assumption)+)
  let ?S = "SumOp (MatrixOp A00) (ProductOp [MatrixOp A10, solver A11, MatrixOp A01])"
  have S: "schurComplement solver M dofs = Inr ?S"
    by (simp add: schurComplement_def blocks)
  let ?b = "dense_mult (block M ?el dofs) ?k ?m x"
  have m00: "mult_vec A00 x = Inr (dense_mult (block M dofs dofs) ?m ?m x)"
  proof -
    have "mult_vec A00 x = Inr (dense_mult (entry A00) ?m ?m x)"
      using mult_vec_dense[OF c00, of x] x d00 by simp
    also have "dense_mult (entry A00) ?m ?m x = dense_mult (block M dofs dofs) ?m ?m x"
      using e00 by (intro dense_mult_cong) simp
    finally show ?thesis .
  qed
  have m10: "mult_vec A10 x = Inr ?b"
  proof -
    have "mult_vec A10 x = Inr (dense_mult (entry A10) ?k ?m x)"
      using mult_vec_dense[OF c10, of x] x d10 by simp
    also have "dense_mult (entry A10) ?k ?m x = ?b"
      using e10 by (intro dense_mult_cong) simp
    finally show ?thesis .
  qed
  have lb: "length ?b = ?k" by (simp add: length_dense_mult)
  have rep: "represents A11 (\<lambda>i j. - block M ?el ?el i j) ?k"
    unfolding represents_def using d11 c11 r11 e11 by simp
  from solver[unfolded realises_inverse_def, rule_format, of A11 ?b] rep lb obtain y where
    y: "apply_op (solver A11) ?b = Inr y" "length y = ?k" "mult_vec A11 y = Inr ?b"
    by blast
  have "mult_vec A11 y = Inr (dense_mult (entry A11) ?k ?k y)"
    using mult_vec_dense[OF c11, of y] y(2) d11 by simp
  also have "dense_mult (entry A11) ?k ?k y =
      dense_mult (\<lambda>i j. - block M ?el ?el i j) ?k ?k y"
    using e11 by (intro dense_mult_cong) simp
  also have "\<dots> = dense_mult (block M ?el ?el) ?k ?k (map uminus y)"
    using y(2) by (simp add: dense_mult_neg_mat dense_mult_neg_vec)
  finally have "dense_mult (block M ?el ?el) ?k ?k (map uminus y) = ?b"
    using y(3) by simp
  with z(2) have "dense_mult (block M ?el ?el) ?k ?k (map uminus y) =
      dense_mult (block M ?el ?el) ?k ?k z"
    by simp
  with nonsingular[rule_format, of "map uminus y" z] y(2) z(1)
  have yz: "map uminus y = z" by simp
  then have y_eq: "y = map uminus z" using map_uminus_twice[of y] by simp
  have m01: "mult_vec A01 y =
      Inr (map uminus (dense_mult (block M dofs ?el) ?m ?k z))"
  proof -
    have "mult_vec A01 y = Inr (dense_mult (entry A01) ?m ?k y)"
      using mult_vec_dense[OF c01, of y] y(2) d01 by simp
    also have "dense_mult (entry A01) ?m ?k y = dense_mult (block M dofs ?el) ?m ?k y"
      using e01 by (intro dense_mult_cong) simp
    also have "\<dots> = map uminus (dense_mult (block M dofs ?el) ?m ?k z)"
      unfolding y_eq using z(1) by (simp add: dense_mult_neg_vec)
    finally show ?thesis .
  qed
  have app: "apply_op ?S x =
      Inr (map2 (-) (dense_mult (block M dofs dofs) ?m ?m x)
             (dense_mult (block M dofs ?el) ?m ?k z))"
    using m00 m10 y(1) m01
    by (simp add: vec_add_def length_dense_mult map2_add_uminus)
  have full: "apply_op ?S x = mult_vec M x" if full: "dofs = [0..<n]"
  proof -
    have m: "?m = n" "?k = 0" using full by simp_all
    have cM: "\<forall>e\<in>set (stored M). t_col e < cols M"
      using wf by (simp add: wf_matrix_def list_all_iff)
    have "mult_vec M x = Inr (dense_mult (entry M) n n x)"
      using mult_vec_dense[OF cM, of x] x sq m by simp
    also have "dense_mult (entry M) n n x = dense_mult (block M dofs dofs) n n x"
      using full by (intro dense_mult_cong) (simp add: block_def)
    also have "\<dots> = map2 (-) (dense_mult (block M dofs dofs) n n x)
        (dense_mult (block M dofs ?el) n 0 z)"
      by (simp add: dense_mult_def map2_map_map)
    finally show ?thesis using app m by simp
  qed
  show ?thesis
  proof (intro exI[of _ ?S] conjI impI)
    show "schurComplement solver M dofs = Inr ?S" by (rule S)
    show "apply_op ?S x =
      Inr (map2 (-) (dense_mult (block M dofs dofs) ?m ?m x)
             (dense_mult (block M dofs ?el) ?m ?k z))" by (rule app)
    assume "dofs = [0..<n]"
    then show "apply_op ?S x = mult_vec M x" by (rule full)
  qed
qed

theorem schurComplement_explicit_witness:
  "(\<exists>S. schurComplement example_solver example_matrix [0] = Inr S \<and>
        apply_op S [1] = Inr [3 / 2]) \<and>
   (\<exists>S. schurComplement example_solver example_matrix [0, 1] = Inr S \<and>
        apply_op S [1, 1] = Inr [3, 3] \<and> mult_vec example_matrix [1, 1] = Inr [3, 3])"
proof -
  have sq: "rows example_matrix = 2" "cols example_matrix = 2"
    by (simp_all add: example_matrix_def)
  have pos: "(0::nat) < 2" by simp
  have 1: "\<exists>S. schurComplement example_solver example_matrix [0] = Inr S \<and>
        apply_op S [1] = Inr [3 / 2]"
  proof -
    have d: "distinct [0 :: nat]" and r: "\<forall>d\<in>set [0 :: nat]. d < 2"
      and x: "length [1 :: real] = length [0 :: nat]"
      by simp_all
    have k: "2 - length [0 :: nat] = Suc 0" by simp
    have solver: "realises_inverse example_solver
        (\<lambda>i j. - block example_matrix (eliminated [0] 2) (eliminated [0] 2) i j)
        (2 - length [0 :: nat])"
      unfolding k by (rule example_solver_one) (simp add: example_eliminated block_def example_entries)
    have nonsingular: "\<forall>u w. length u = 2 - length [0 :: nat] \<and> length w = 2 - length [0 :: nat] \<and>
        dense_mult (block example_matrix (eliminated [0] 2) (eliminated [0] 2))
          (2 - length [0 :: nat]) (2 - length [0 :: nat]) u =
        dense_mult (block example_matrix (eliminated [0] 2) (eliminated [0] 2))
          (2 - length [0 :: nat]) (2 - length [0 :: nat]) w \<longrightarrow> u = w"
      by (auto simp: example_eliminated dense_mult_def block_def example_entries length_Suc_conv)
    have z: "length [1 / 2 :: real] = 2 - length [0 :: nat]"
      "dense_mult (block example_matrix (eliminated [0] 2) (eliminated [0] 2))
          (2 - length [0 :: nat]) (2 - length [0 :: nat]) [1 / 2] =
       dense_mult (block example_matrix (eliminated [0] 2) [0]) (2 - length [0 :: nat])
          (length [0 :: nat]) [1]"
      by (simp_all add: example_eliminated dense_mult_def block_def example_entries)
    from schurComplement_explicit[OF example_wf sq pos d r x solver nonsingular z]
    have "\<exists>S. schurComplement example_solver example_matrix [0] = Inr S \<and>
        apply_op S [1] = Inr [3 / 2] \<and>
        ([0] = [0..<2] \<longrightarrow> apply_op S [1] = mult_vec example_matrix [1])"
      by (simp add: example_eliminated dense_mult_def block_def example_entries)
    then show ?thesis by blast
  qed
  have 2: "\<exists>S. schurComplement example_solver example_matrix [0, 1] = Inr S \<and>
        apply_op S [1, 1] = Inr [3, 3] \<and> mult_vec example_matrix [1, 1] = Inr [3, 3]"
  proof -
    have d: "distinct [0, 1 :: nat]" and r: "\<forall>d\<in>set [0, 1 :: nat]. d < 2"
      and x: "length [1, 1 :: real] = length [0, 1 :: nat]"
      by simp_all
    have k: "2 - length [0, 1 :: nat] = 0" by simp
    have solver: "realises_inverse example_solver
        (\<lambda>i j. - block example_matrix (eliminated [0, 1] 2) (eliminated [0, 1] 2) i j)
        (2 - length [0, 1 :: nat])"
      unfolding k by (rule example_solver_none)
    have nonsingular: "\<forall>u w. length u = 2 - length [0, 1 :: nat] \<and>
        length w = 2 - length [0, 1 :: nat] \<and>
        dense_mult (block example_matrix (eliminated [0, 1] 2) (eliminated [0, 1] 2))
          (2 - length [0, 1 :: nat]) (2 - length [0, 1 :: nat]) u =
        dense_mult (block example_matrix (eliminated [0, 1] 2) (eliminated [0, 1] 2))
          (2 - length [0, 1 :: nat]) (2 - length [0, 1 :: nat]) w \<longrightarrow> u = w"
      by simp
    have z: "length ([] :: real list) = 2 - length [0, 1 :: nat]"
      "dense_mult (block example_matrix (eliminated [0, 1] 2) (eliminated [0, 1] 2))
          (2 - length [0, 1 :: nat]) (2 - length [0, 1 :: nat]) [] =
       dense_mult (block example_matrix (eliminated [0, 1] 2) [0, 1]) (2 - length [0, 1 :: nat])
          (length [0, 1 :: nat]) [1, 1]"
      by (simp_all add: dense_mult_def)
    have full: "[0, 1] = [0..<2]" by (simp add: numeral_2_eq_2)
    have mv: "mult_vec example_matrix [1, 1] = Inr [3, 3]"
      by (simp add: mult_vec_def example_matrix_def t_row_def t_col_def t_val_def numeral_2_eq_2)
    from schurComplement_explicit[OF example_wf sq pos d r x solver nonsingular z] full mv
    show ?thesis by auto
  qed
  from 1 2 show ?thesis by blast
qed

text \<open>
  The claim C3 as stated, for every matrix and with \<open>M x\<close> for the full index set, fails
  twice.  For the matrix with no row and no column, whose full index set is the empty
  list, no operator is returned: the size to reserve is a division by the number of rows.
  And the blocks follow the order of \<open>dofs\<close>: for the symmetric diagonal matrix with the
  coefficients 1 and 2 and the full index set listed as \<open>[1, 0]\<close>, the interior block is
  empty, and the operator maps \<open>[1, 0]\<close> to \<open>[2, 0]\<close>, where \<open>M x\<close> is \<open>[1, 0]\<close>.
\<close>

theorem schurComplement_full_set_counterexample:
  "wf_matrix \<lparr>rows = 0, cols = 0, stored = []\<rparr> \<and>
   schurComplement example_solver \<lparr>rows = 0, cols = 0, stored = []\<rparr> [] =
     Inl (DivisionByZero ReserveDiv) \<and>
   wf_matrix example_diagonal \<and> distinct [1, 0 :: nat] \<and> set [1, 0 :: nat] = {0..<2} \<and>
   (\<exists>A00 A10 A01 A11.
      schurBlocks example_diagonal [1, 0] = Inr (A00, A10, A01, A11) \<and>
      rows A11 = 0 \<and> cols A11 = 0 \<and>
      schurComplement example_solver example_diagonal [1, 0] =
        Inr (SumOp (MatrixOp A00) (ProductOp [MatrixOp A10, example_solver A11, MatrixOp A01])) \<and>
      apply_op (SumOp (MatrixOp A00)
                  (ProductOp [MatrixOp A10, example_solver A11, MatrixOp A01])) [1, 0] =
        Inr [2, 0]) \<and>
   mult_vec example_diagonal [1, 0] = Inr [1, 0]"
proof -
  have w: "wf_matrix example_diagonal"
    by (simp add: example_diagonal_def wf_matrix_def t_pos_def t_row_def t_col_def)
  have s: "set [1, 0 :: nat] = {0..<2}" by auto
  have b: "schurBlocks example_diagonal [1, 0] =
      Inr (\<lparr>rows = 2, cols = 2, stored = [(0, 0, 2), (1, 1, 1)]\<rparr>,
           \<lparr>rows = 0, cols = 2, stored = []\<rparr>, \<lparr>rows = 2, cols = 0, stored = []\<rparr>,
           \<lparr>rows = 0, cols = 0, stored = []\<rparr>)"
    by (simp add: schurBlocks_def reserve_size_def example_diagonal_def fill_negative_def
        setFrom_def t_pos_def t_row_def t_col_def t_val_def numeral_2_eq_2 col_major_def)
  have c: "schurComplement example_solver example_diagonal [1, 0] =
      Inr (SumOp (MatrixOp \<lparr>rows = 2, cols = 2, stored = [(0, 0, 2), (1, 1, 1)]\<rparr>)
             (ProductOp [MatrixOp \<lparr>rows = 0, cols = 2, stored = []\<rparr>,
                         example_solver \<lparr>rows = 0, cols = 0, stored = []\<rparr>,
                         MatrixOp \<lparr>rows = 2, cols = 0, stored = []\<rparr>]))"
    unfolding schurComplement_def b by simp
  have a: "apply_op (SumOp (MatrixOp \<lparr>rows = 2, cols = 2, stored = [(0, 0, 2), (1, 1, 1)]\<rparr>)
             (ProductOp [MatrixOp \<lparr>rows = 0, cols = 2, stored = []\<rparr>,
                         example_solver \<lparr>rows = 0, cols = 0, stored = []\<rparr>,
                         MatrixOp \<lparr>rows = 2, cols = 0, stored = []\<rparr>])) [1, 0] = Inr [2, 0]"
    by (simp add: example_solver_def mult_vec_def vec_add_def t_row_def t_col_def t_val_def
        numeral_2_eq_2)
  have m: "mult_vec example_diagonal [1, 0] = Inr [1, 0]"
    by (simp add: mult_vec_def example_diagonal_def t_row_def t_col_def t_val_def numeral_2_eq_2)
  have e: "wf_matrix \<lparr>rows = 0, cols = 0, stored = []\<rparr>"
    "schurComplement example_solver \<lparr>rows = 0, cols = 0, stored = []\<rparr> [] =
       Inl (DivisionByZero ReserveDiv)"
    by (simp_all add: wf_matrix_def schurComplement_def schurBlocks_def reserve_size_def)
  show ?thesis using e w s b c a m by simp
qed

end
